theory Spec2Isabelle
  imports Complex_Main "HOL-Library.Extended_Nat"
begin

section \<open>JavaScript numbers and values\<close>

text \<open>
  A JavaScript number is an IEEE double. The model keeps the three special values apart
  and carries a finite number as the rational that its decimal notation denotes
  (comparison, \<open>Math.min\<close> and \<open>Math.max\<close> never round).
\<close>

datatype jsnum = NaN | NegInf | Fin rat | PosInf

definition isNaN :: "jsnum \<Rightarrow> bool" where
  "isNaN x = (x = NaN)"

fun is_finite :: "jsnum \<Rightarrow> bool" where
  "is_finite (Fin r) = True"
| "is_finite _ = False"

text \<open>The comparison \<open>a <= b\<close> of two numbers; every comparison with \<open>NaN\<close> is false.\<close>

fun js_le :: "jsnum \<Rightarrow> jsnum \<Rightarrow> bool" where
  "js_le NaN _ = False"
| "js_le _ NaN = False"
| "js_le NegInf _ = True"
| "js_le _ PosInf = True"
| "js_le (Fin a) (Fin b) = (a \<le> b)"
| "js_le (Fin a) NegInf = False"
| "js_le PosInf _ = False"

text \<open>\<open>Math.min\<close> and \<open>Math.max\<close> of two numbers: \<open>NaN\<close> as soon as one argument is.\<close>

definition math_min :: "jsnum \<Rightarrow> jsnum \<Rightarrow> jsnum" where
  "math_min a b = (if a = NaN \<or> b = NaN then NaN else if js_le a b then a else b)"

definition math_max :: "jsnum \<Rightarrow> jsnum \<Rightarrow> jsnum" where
  "math_max a b = (if a = NaN \<or> b = NaN then NaN else if js_le a b then b else a)"

text \<open>
  The values \<open>res.json()\<close> can produce, and \<open>undefined\<close> for a property that is absent.
  An object is the list of its own properties.
\<close>

datatype jsval =
    JUndefined
  | JNull
  | JBool bool
  | JNum jsnum
  | JStr string
  | JArr "jsval list"
  | JObj "(string \<times> jsval) list"

text \<open>A value read from JSON text holds no \<open>undefined\<close> and no \<open>NaN\<close> (JSON has no literal for either).\<close>

fun is_json :: "jsval \<Rightarrow> bool" where
  "is_json JUndefined = False"
| "is_json JNull = True"
| "is_json (JBool b) = True"
| "is_json (JNum n) = (n \<noteq> NaN)"
| "is_json (JStr s) = True"
| "is_json (JArr xs) = (\<forall>x \<in> set xs. is_json x)"
| "is_json (JObj fs) = (\<forall>x \<in> set (map snd fs). is_json x)"

datatype js_error = TypeError | NetworkError | SyntaxError | TimeoutError | Error string

record gas_prices =
  slow :: jsnum
  average :: jsnum
  fast :: jsnum

section \<open>Gas price selection (EthConnection.getAutoGasPriceGwei, Network.getGasSettingGwei)\<close>

text \<open>
  The built-in \<open>parseFloat\<close>, after ECMAScript: leading white space is skipped, the longest
  prefix that is a decimal literal (sign, \<open>Infinity\<close>, or digits with optional fraction and
  exponent) is read, and \<open>NaN\<close> is returned when there is none. A character stands for a
  code unit below 256, so the white space is the six ASCII characters and the no-break
  space. A magnitude that rounds beyond the largest double becomes an infinity and one
  that rounds below the smallest double becomes 0; in between the decimal value is kept
  as it is written, which is the double's own shortest notation for a literal of up to 15
  significant digits.
\<close>

definition StrWhiteSpaceChar :: "char \<Rightarrow> bool" where
  "StrWhiteSpaceChar c =
     (c \<in> set [CHR 0x09, CHR 0x0A, CHR 0x0B, CHR 0x0C, CHR 0x0D, CHR 0x20, CHR 0xA0])"

definition is_digit :: "char \<Rightarrow> bool" where
  "is_digit c = (c \<in> set ''0123456789'')"

definition digits_value :: "string \<Rightarrow> nat" where
  "digits_value ds = foldl (\<lambda>n c. 10 * n + (of_char c - 48)) 0 ds"

definition split_sign :: "string \<Rightarrow> bool \<times> string" where
  "split_sign s = (case s of
       [] \<Rightarrow> (False, s)
     | c # r \<Rightarrow> if c = CHR ''-'' then (True, r) else if c = CHR ''+'' then (False, r) else (False, s))"

definition exponent_part :: "string \<Rightarrow> int" where
  "exponent_part s = (case s of
       [] \<Rightarrow> 0
     | c # r \<Rightarrow>
         if c = CHR ''e'' \<or> c = CHR ''E'' then
           (let (neg, r') = split_sign r; ds = takeWhile is_digit r'
            in if ds = [] then 0
               else if neg then - int (digits_value ds) else int (digits_value ds))
         else 0)"

definition pow10 :: "int \<Rightarrow> rat" where
  "pow10 k = (if 0 \<le> k then 10 ^ nat k else 1 / 10 ^ nat (- k))"

definition round_double :: "rat \<Rightarrow> jsnum" where
  "round_double v =
     (if 2 ^ 1024 - 2 ^ 970 \<le> v then PosInf
      else if v \<le> - (2 ^ 1024 - 2 ^ 970) then NegInf
      else if \<bar>v\<bar> \<le> 1 / 2 ^ 1075 then Fin 0
      else Fin v)"

definition parseFloat :: "string \<Rightarrow> jsnum" where
  "parseFloat input =
     (let (neg, s) = split_sign (dropWhile StrWhiteSpaceChar input)
      in if take 8 s = ''Infinity'' then (if neg then NegInf else PosInf)
         else
           (let ip = takeWhile is_digit s;
                r1 = dropWhile is_digit s;
                (fp, r2) = (case r1 of
                     [] \<Rightarrow> ([], r1)
                   | c # r \<Rightarrow> if c = CHR ''.''
                       then (takeWhile is_digit r, dropWhile is_digit r) else ([], r1))
            in if ip = [] \<and> fp = [] then NaN
               else
                 (let v = of_nat (digits_value (ip @ fp))
                            * pow10 (exponent_part r2 - int (length fp))
                  in round_double (if neg then - v else v))))"

text \<open>Network.getGasSettingGwei: the switch over the three automatic settings; \<open>None\<close> is \<open>undefined\<close>.\<close>

definition getGasSettingGwei :: "string \<Rightarrow> gas_prices \<Rightarrow> jsnum option" where
  "getGasSettingGwei setting gasPrices =
     (if setting = ''Slow'' then Some (slow gasPrices)
      else if setting = ''Average'' then Some (average gasPrices)
      else if setting = ''Fast'' then Some (fast gasPrices)
      else None)"

definition getAutoGasPriceGwei :: "gas_prices \<Rightarrow> string \<Rightarrow> jsnum" where
  "getAutoGasPriceGwei gasPrices gasPriceSetting =
     (case getGasSettingGwei gasPriceSetting gasPrices of
        Some autoPrice \<Rightarrow> autoPrice
      | None \<Rightarrow>
          (let parsedSetting = parseFloat gasPriceSetting
           in if \<not> isNaN parsedSetting then parsedSetting else average gasPrices))"

section \<open>Gas price oracle client (getAutoGasPrices, cleanGasPrices)\<close>

text \<open>
  \<open>DEFAULT_GAS_PRICES\<close> and \<open>MAX_AUTO_GAS_PRICE_GWEI\<close> come from the constants package,
  which is not part of this repository: the functions take them as the parameters
  \<open>D\<close> and \<open>M\<close>.
\<close>

text \<open>Reading a property of an object: \<open>undefined\<close> when the object has no such property.\<close>

definition own_property :: "(string \<times> jsval) list \<Rightarrow> string \<Rightarrow> jsval" where
  "own_property fs k = (case map_of fs k of None \<Rightarrow> JUndefined | Some v \<Rightarrow> v)"

text \<open>
  \<open>if (typeof gasPrices.f !== 'number') gasPrices.f = DEFAULT_GAS_PRICES.f\<close>:
  the number the field holds afterwards.
\<close>

definition numberOr :: "jsval \<Rightarrow> jsnum \<Rightarrow> jsnum" where
  "numberOr v d = (case v of JNum n \<Rightarrow> n | _ \<Rightarrow> d)"

text \<open>\<open>Math.max(1, Math.min(MAX_AUTO_GAS_PRICE_GWEI, x))\<close>\<close>

definition clampGwei :: "jsnum \<Rightarrow> jsnum \<Rightarrow> jsnum" where
  "clampGwei M x = math_max (Fin 1) (math_min M x)"

definition clean_fields :: "gas_prices \<Rightarrow> jsnum \<Rightarrow> (string \<times> jsval) list \<Rightarrow> gas_prices" where
  "clean_fields D M fs =
     \<lparr> slow = clampGwei M (numberOr (own_property fs ''slow'') (slow D)),
       average = clampGwei M (numberOr (own_property fs ''average'') (average D)),
       fast = clampGwei M (numberOr (own_property fs ''fast'') (fast D)) \<rparr>"

text \<open>
  cleanGasPrices mutates its argument; the model returns the three price fields the
  argument holds afterwards. Reading a property of \<open>null\<close> throws a TypeError. A boolean,
  number or string has none of the three properties, so the first test succeeds and the
  assignment to a property of a primitive throws a TypeError (the file is in strict mode).
  An array is an object without the three properties.
\<close>

fun cleanGasPrices :: "gas_prices \<Rightarrow> jsnum \<Rightarrow> jsval \<Rightarrow> js_error + gas_prices" where
  "cleanGasPrices D M JUndefined = Inl TypeError"
| "cleanGasPrices D M JNull = Inl TypeError"
| "cleanGasPrices D M (JBool b) = Inl TypeError"
| "cleanGasPrices D M (JNum n) = Inl TypeError"
| "cleanGasPrices D M (JStr s) = Inl TypeError"
| "cleanGasPrices D M (JArr xs) = Inr (clean_fields D M [])"
| "cleanGasPrices D M (JObj fs) = Inr (clean_fields D M fs)"

text \<open>What the oracle request comes to: \<open>fetch\<close> rejects, \<open>res.json()\<close> rejects, or a value is parsed.\<close>

datatype oracle_response = FetchFailed | JsonFailed | Parsed jsval

text \<open>The body of the \<open>try\<close> block of getAutoGasPrices.\<close>

definition getAutoGasPrices_try :: "gas_prices \<Rightarrow> jsnum \<Rightarrow> oracle_response \<Rightarrow> js_error + gas_prices" where
  "getAutoGasPrices_try D M r =
     (case r of
        FetchFailed \<Rightarrow> Inl NetworkError
      | JsonFailed \<Rightarrow> Inl SyntaxError
      | Parsed prices \<Rightarrow> cleanGasPrices D M prices)"

text \<open>getAutoGasPrices: \<open>Inl\<close> would be a rejected promise; the \<open>catch\<close> returns the defaults.\<close>

definition getAutoGasPrices :: "gas_prices \<Rightarrow> jsnum \<Rightarrow> oracle_response \<Rightarrow> js_error + gas_prices" where
  "getAutoGasPrices D M r =
     (case getAutoGasPrices_try D M r of
        Inr prices \<Rightarrow> Inr prices
      | Inl e \<Rightarrow> Inr D)"

definition in_gwei_range :: "jsnum \<Rightarrow> jsnum \<Rightarrow> bool" where
  "in_gwei_range M x = (js_le (Fin 1) x \<and> js_le x M)"

section \<open>ThrottledConcurrentQueue\<close>

text \<open>
  The fields of the class, followed by what the JavaScript runtime holds for it: the
  pending timers whose callback is \<open>executeNextTasks\<close> (identifier, instant at which the
  timer was set, delay), the next timer identifier, the number of tasks that have ended
  and whose \<open>then\<close> callback has not run yet, the clock, and a log of every task start
  (instant and task) kept for the statements below.
  \<open>taskQueue\<close> has its front at index 0: \<open>unshift\<close> adds there and \<open>pop\<close> takes the last
  element. \<open>executionTimestamps\<close> is the content of the circular buffer, oldest first;
  \<open>capacity\<close> is the buffer's capacity. \<open>maxConcurrency\<close> may be infinite (the default
  \<open>Number.POSITIVE_INFINITY\<close>). Instants are values of \<open>Date.now()\<close>, in milliseconds.
\<close>

record 'a tcq =
  taskQueue :: "'a list"
  concurrency :: nat
  invocationIntervalMs :: int
  maxConcurrency :: enat
  capacity :: nat
  executionTimestamps :: "int list"
  executionTimeout :: "nat option"
  timers :: "(nat \<times> int \<times> int) list"
  next_timer :: nat
  finished :: nat
  clock :: int
  started :: "(int \<times> 'a) list"

datatype queue_error = InvalidArgument string

text \<open>The constructor, called at the instant \<open>now\<close>. Timer identifiers start at 1 (a handle is truthy).\<close>

definition new_ThrottledConcurrentQueue ::
    "nat \<Rightarrow> int \<Rightarrow> enat \<Rightarrow> int \<Rightarrow> queue_error + 'a tcq" where
  "new_ThrottledConcurrentQueue maxInvocationsPerIntervalMs intervalMs maxConc now =
     (if maxInvocationsPerIntervalMs \<le> 0 then
        Inl (InvalidArgument ''must allow at least one invocation per interval'')
      else if intervalMs \<le> 0 then
        Inl (InvalidArgument ''invocation interval must be positive'')
      else if maxConc \<le> 0 then
        Inl (InvalidArgument ''max concurrency must be positive'')
      else Inr \<lparr> taskQueue = [], concurrency = 0, invocationIntervalMs = intervalMs,
                 maxConcurrency = maxConc, capacity = maxInvocationsPerIntervalMs,
                 executionTimestamps = [], executionTimeout = None,
                 timers = [], next_timer = 1, finished = 0, clock = now,
                 started = [] \<rparr>)"

text \<open>
  \<open>clock\<close> is the value that \<open>Date.now()\<close> returns. \<open>advance\<close> lets time pass.
\<close>

definition advance :: "nat \<Rightarrow> 'a tcq \<Rightarrow> 'a tcq" where
  "advance ms q = q\<lparr> clock := clock q + int ms \<rparr>"

text \<open>\<open>setTimeout(executeNextTasks, delay)\<close> and \<open>clearTimeout\<close>.\<close>

definition setTimeout :: "int \<Rightarrow> 'a tcq \<Rightarrow> nat \<times> 'a tcq" where
  "setTimeout delay q =
     (next_timer q,
      q\<lparr> timers := timers q @ [(next_timer q, clock q, delay)],
         next_timer := Suc (next_timer q) \<rparr>)"

definition clearTimeout :: "nat \<Rightarrow> 'a tcq \<Rightarrow> 'a tcq" where
  "clearTimeout h q = q\<lparr> timers := filter (\<lambda>(i, s, d). i \<noteq> h) (timers q) \<rparr>"

text \<open>add: the task goes to the front and a scheduling tick is requested with delay 0.\<close>

definition add :: "'a \<Rightarrow> 'a tcq \<Rightarrow> 'a tcq" where
  "add start q = snd (setTimeout 0 (q\<lparr> taskQueue := start # taskQueue q \<rparr>))"

definition size_tcq :: "'a tcq \<Rightarrow> nat" where
  "size_tcq q = length (taskQueue q)"

text \<open>The circular buffer: \<open>push\<close> overwrites the oldest entry when the buffer is full.\<close>

definition buffer_push :: "nat \<Rightarrow> int list \<Rightarrow> int \<Rightarrow> int list" where
  "buffer_push cap xs x = (if length xs < cap then xs @ [x] else tl xs @ [x])"

definition peekFirst :: "int list \<Rightarrow> int option" where
  "peekFirst xs = (case xs of [] \<Rightarrow> None | x # _ \<Rightarrow> Some x)"

definition concurrencyQuotaRemaining :: "'a tcq \<Rightarrow> enat" where
  "concurrencyQuotaRemaining q = maxConcurrency q - enat (concurrency q)"

definition throttleQuotaRemaining :: "'a tcq \<Rightarrow> nat" where
  "throttleQuotaRemaining q = capacity q - length (executionTimestamps q)"

text \<open>
  deleteOutdatedExecutionTimestamps: the loop runs while the oldest timestamp is truthy
  (present and not 0) and smaller than \<open>now - invocationIntervalMs\<close>.
\<close>

fun delete_outdated :: "int \<Rightarrow> int \<Rightarrow> int list \<Rightarrow> int list" where
  "delete_outdated now w [] = []"
| "delete_outdated now w (oldestInvocation # rest) =
     (if oldestInvocation \<noteq> 0 \<and> oldestInvocation < now - w
      then delete_outdated now w rest
      else oldestInvocation # rest)"

definition deleteOutdatedExecutionTimestamps :: "'a tcq \<Rightarrow> 'a tcq" where
  "deleteOutdatedExecutionTimestamps q =
     (let now = clock q
      in q\<lparr> executionTimestamps :=
              delete_outdated now (invocationIntervalMs q) (executionTimestamps q) \<rparr>)"

text \<open>
  next, up to its \<open>await\<close>: the task that starts is taken from the back of the queue, the
  instant is pushed on the buffer and the counter goes up. The start function returns a
  promise, without throwing and without calling the queue; the task ends later, as an
  event of its own (\<open>task_done\<close>: the counter goes down and the \<open>then\<close> callback of
  \<open>next()\<close> becomes due).
\<close>

definition next_task :: "'a tcq \<Rightarrow> 'a tcq" where
  "next_task q =
     (if taskQueue q = [] then q
      else q\<lparr> taskQueue := butlast (taskQueue q),
              executionTimestamps :=
                buffer_push (capacity q) (executionTimestamps q) (clock q),
              concurrency := Suc (concurrency q),
              started := started q @ [(clock q, last (taskQueue q))] \<rparr>)"

definition task_done :: "'a tcq \<Rightarrow> 'a tcq" where
  "task_done q = q\<lparr> concurrency := concurrency q - 1, finished := Suc (finished q) \<rparr>"

text \<open>nextPossibleExecution; \<open>None\<close> is \<open>undefined\<close>.\<close>

definition nextPossibleExecution :: "'a tcq \<Rightarrow> int option" where
  "nextPossibleExecution q =
     (case peekFirst (executionTimestamps q) of
        None \<Rightarrow> None
      | Some oldestExecution \<Rightarrow>
          if oldestExecution = 0 \<or> concurrencyQuotaRemaining q = 0 then None
          else Some (clock q - oldestExecution + invocationIntervalMs q))"

text \<open>\<open>Math.min(throttleQuotaRemaining, concurrencyQuotaRemaining, taskQueue.length)\<close>\<close>

definition tasksToExecute :: "'a tcq \<Rightarrow> nat" where
  "tasksToExecute q =
     (case concurrencyQuotaRemaining q of
        enat c \<Rightarrow> min (throttleQuotaRemaining q) (min c (length (taskQueue q)))
      | \<infinity> \<Rightarrow> min (throttleQuotaRemaining q) (length (taskQueue q)))"

text \<open>
  The \<open>for\<close> loop of executeNextTasks. Time may pass while a tick runs, since each start
  function runs up to its first \<open>await\<close> inside the loop: the clock advances by \<open>d 0\<close>
  milliseconds before the first call of \<open>next\<close>, by \<open>d 1\<close> before the second, and so on.
\<close>

primrec start_tasks :: "nat \<Rightarrow> (nat \<Rightarrow> nat) \<Rightarrow> 'a tcq \<Rightarrow> 'a tcq" where
  "start_tasks 0 d q = q"
| "start_tasks (Suc n) d q = start_tasks n (\<lambda>k. d (Suc k)) (next_task (advance (d 0) q))"

text \<open>The rest of executeNextTasks: the wake-up timer.\<close>

definition schedule_wake :: "'a tcq \<Rightarrow> 'a tcq" where
  "schedule_wake q =
     (case nextPossibleExecution q of
        None \<Rightarrow> q
      | Some nextPossible \<Rightarrow>
          if taskQueue q \<noteq> [] \<and> nextPossible \<noteq> 0 then
            (let q1 = (case executionTimeout q of None \<Rightarrow> q | Some h \<Rightarrow> clearTimeout h q);
                 (h', q2) = setTimeout nextPossible q1
             in q2\<lparr> executionTimeout := Some h' \<rparr>)
          else q)"

text \<open>
  executeNextTasks, with the milliseconds \<open>d\<close> that pass between its readings of the
  clock: after \<open>n\<close> starts the clock advances by \<open>d n\<close> before nextPossibleExecution reads it.
\<close>

definition executeNextTasks :: "(nat \<Rightarrow> nat) \<Rightarrow> 'a tcq \<Rightarrow> 'a tcq" where
  "executeNextTasks d q =
     (let q1 = deleteOutdatedExecutionTimestamps q;
          n = tasksToExecute q1;
          q2 = start_tasks n d q1
      in schedule_wake (advance (d n) q2))"

text \<open>
  What can happen to a queue: a caller adds a task; a pending timer fires once it is due
  and runs \<open>executeNextTasks\<close>; a running task ends; the \<open>then\<close> callback of a task that
  has ended runs \<open>executeNextTasks\<close>. Each event carries the instant at which it begins,
  and a tick carries the milliseconds that pass while it runs; the clock does not run
  backwards. An event that cannot happen (an instant in the past, a timer that is not
  pending or not yet due, the end of a task when none is running, a \<open>then\<close> callback when
  none is due) gives \<open>None\<close>.
\<close>

datatype 'a event =
    Add 'a int
  | Timeout nat int "nat \<Rightarrow> nat"
  | Complete int
  | Then int "nat \<Rightarrow> nat"

definition timer_due :: "nat \<Rightarrow> 'a tcq \<Rightarrow> bool" where
  "timer_due h q = (\<exists>(i, s, d) \<in> set (timers q). i = h \<and> s + d \<le> clock q)"

fun step :: "'a event \<Rightarrow> 'a tcq \<Rightarrow> 'a tcq option" where
  "step (Add start now) q =
     (if now < clock q then None else Some (add start (q\<lparr> clock := now \<rparr>)))"
| "step (Timeout h now d) q =
     (if now < clock q \<or> \<not> timer_due h (q\<lparr> clock := now \<rparr>) then None
      else Some (executeNextTasks d (clearTimeout h (q\<lparr> clock := now \<rparr>))))"
| "step (Complete now) q =
     (if now < clock q \<or> concurrency q = 0 then None
      else Some (task_done (q\<lparr> clock := now \<rparr>)))"
| "step (Then now d) q =
     (if now < clock q \<or> finished q = 0 then None
      else Some (executeNextTasks d (q\<lparr> clock := now, finished := finished q - 1 \<rparr>)))"

fun run :: "'a event list \<Rightarrow> 'a tcq \<Rightarrow> 'a tcq option" where
  "run [] q = Some q"
| "run (e # es) q = (case step e q of None \<Rightarrow> None | Some q' \<Rightarrow> run es q')"

text \<open>The number of task starts in the window of instants from \<open>t\<close> to \<open>t + w\<close>, both included.\<close>

definition starts_in_window :: "int \<Rightarrow> int \<Rightarrow> 'a tcq \<Rightarrow> nat" where
  "starts_in_window t w q = length (filter (\<lambda>(s, x). t \<le> s \<and> s \<le> t + w) (started q))"

text \<open>
  What the scheduling keeps true: the buffer never exceeds its capacity; the start log is
  the buffer preceded by starts that were pruned, each of them more than one interval
  before the clock; and no window of one interval holds more starts than the capacity.
\<close>

definition rate_inv :: "'a tcq \<Rightarrow> bool" where
  "rate_inv q \<longleftrightarrow>
     length (executionTimestamps q) \<le> capacity q
     \<and> (\<exists>pruned. map fst (started q) = pruned @ executionTimestamps q
           \<and> (\<forall>x \<in> set pruned. x + invocationIntervalMs q < clock q))
     \<and> (\<forall>t. starts_in_window t (invocationIntervalMs q) q \<le> capacity q)"

section \<open>Network.aggregateBulkGetter\<close>

text \<open>
  The getter is an asynchronous function of the outside world. Its answer to a request
  for the range from \<open>start\<close> to \<open>end\<close> may change from one invocation to the next, so the
  model gives it the number of earlier invocations for the same chunk as a first argument.
\<close>

type_synonym 'a getter = "nat \<Rightarrow> nat \<Rightarrow> nat \<Rightarrow> 'a list"

text \<open>
  The \<open>for\<close> loop: the chunks \<open>(i, start, end)\<close> from index \<open>i\<close> on. The test is the division
  of the source, \<open>i < total / querySize\<close>.
\<close>

function chunk_bounds :: "nat \<Rightarrow> nat \<Rightarrow> nat \<Rightarrow> (nat \<times> nat \<times> nat) list" where
  "chunk_bounds total' querySize i =
     (if (of_nat i :: rat) < of_nat total' / of_nat querySize
      then (i, i * querySize, min ((i + 1) * querySize) total')
             # chunk_bounds total' querySize (i + 1)
      else [])"
  by pat_completeness auto
termination
proof (relation "measure (\<lambda>(total', querySize, i).
          nat \<lceil>(of_nat total' :: rat) / of_nat querySize\<rceil> - i)")
  show "wf (measure (\<lambda>(total', querySize, i).
          nat \<lceil>(of_nat total' :: rat) / of_nat querySize\<rceil> - i))"
    by simp
next
  fix total' querySize i :: nat
  assume "(of_nat i :: rat) < of_nat total' / of_nat querySize"
  then have "int i < \<lceil>(of_nat total' :: rat) / of_nat querySize\<rceil>"
    by (simp add: less_ceiling_iff)
  then show "((total', querySize, i + 1), (total', querySize, i))
      \<in> measure (\<lambda>(total', querySize, i).
          nat \<lceil>(of_nat total' :: rat) / of_nat querySize\<rceil> - i)"
    by simp
qed

text \<open>
  The promises run side by side. Each one is a \<open>while\<close> loop that asks the getter, adds the
  width of its chunk to \<open>loadedSoFar\<close>, reports the progress and asks again as long as the
  answer is empty. The getter is first invoked for every chunk in the order of the loop,
  and its answers are taken to arrive in the order of its invocations. So the promises
  advance in rounds: in a round every promise that has not resolved receives one answer,
  in the order in which they asked. A promise that has not resolved is its chunk with the
  number of invocations made for it. A round gives the promises that ask again, the
  answers of those that resolve (with the chunk index), the values passed to \<open>onProgress\<close>
  and the new \<open>loadedSoFar\<close>.
\<close>

fun run_round ::
    "'a getter \<Rightarrow> nat \<Rightarrow> nat \<Rightarrow> (nat \<times> nat \<times> nat \<times> nat) list
      \<Rightarrow> (nat \<times> nat \<times> nat \<times> nat) list \<times> (nat \<times> 'a list) list \<times> rat list \<times> nat" where
  "run_round getterFn total' loadedSoFar [] = ([], [], [], loadedSoFar)"
| "run_round getterFn total' loadedSoFar ((i, start, end', k) # rest) =
     (let res = getterFn k start end';
          loaded = loadedSoFar + (end' - start);
          progress = of_nat loaded / of_nat total';
          (again, resolved, calls, loaded') = run_round getterFn total' loaded rest
      in if length res = 0
         then ((i, start, end', Suc k) # again, resolved, progress # calls, loaded')
         else (again, (i, res) # resolved, progress # calls, loaded'))"

text \<open>
  The rounds go on until every promise has resolved, which may never happen (\<open>None\<close>).
\<close>

partial_function (option) run_rounds ::
    "'a getter \<Rightarrow> nat \<Rightarrow> nat \<Rightarrow> (nat \<times> nat \<times> nat \<times> nat) list
      \<Rightarrow> (nat \<times> 'a list) list \<Rightarrow> rat list
      \<Rightarrow> ((nat \<times> 'a list) list \<times> rat list) option" where
  "run_rounds getterFn total' loadedSoFar pending resolved calls =
     (if pending = [] then Some (resolved, calls)
      else
        (case run_round getterFn total' loadedSoFar pending of
           (again, resolved', calls', loaded') \<Rightarrow>
             run_rounds getterFn total' loaded' again (resolved @ resolved') (calls @ calls')))"

declare run_rounds.simps [code]

text \<open>
  aggregateBulkGetter returns the flattened answers together with the arguments of the
  calls of \<open>onProgress\<close>, in order (none when no callback is supplied). \<open>Promise.all\<close> gives
  the answers in the order of the promises, that is, of the chunks. \<open>None\<close> means that the
  function does not return. With \<open>querySize = 0\<close> and \<open>total > 0\<close> the quotient is
  \<open>Infinity\<close> and the \<open>for\<close> loop never ends.
\<close>

definition aggregateBulkGetter ::
    "nat \<Rightarrow> nat \<Rightarrow> 'a getter \<Rightarrow> bool \<Rightarrow> ('a list \<times> rat list) option" where
  "aggregateBulkGetter total' querySize getterFn onProgress =
     (if querySize = 0 \<and> 0 < total' then None
      else
        (let chunks = chunk_bounds total' querySize 0
         in case run_rounds getterFn total' 0
                   (map (\<lambda>(i, start, end'). (i, start, end', 0)) chunks) [] [] of
              None \<Rightarrow> None
            | Some (resolved, calls) \<Rightarrow>
                (let unflattenedResults =
                       map (\<lambda>(i, start, end').
                              case map_of resolved i of None \<Rightarrow> [] | Some res \<Rightarrow> res) chunks
                 in Some (concat unflattenedResults,
                          if onProgress then calls @ [1] else []))))"

section \<open>EthConnection: the contract registry\<close>

text \<open>Network.makeProvider: a websocket provider for \<open>wss://\<close>, else a static JSON-RPC provider polling every 8000 ms.\<close>

datatype provider = WebSocketProvider string | StaticJsonRpcProvider string nat

fun connection_url :: "provider \<Rightarrow> string" where
  "connection_url (WebSocketProvider url) = url"
| "connection_url (StaticJsonRpcProvider url pollingInterval) = url"

definition makeProvider :: "string \<Rightarrow> provider" where
  "makeProvider rpcUrl =
     (if take 6 rpcUrl = ''wss://'' then WebSocketProvider rpcUrl
      else StaticJsonRpcProvider rpcUrl 8000)"

text \<open>A wallet is made of a private key and the provider it is connected to.\<close>

datatype wallet = Wallet string provider

text \<open>A contract loader: given address, provider and optional signer it yields a handle, or fails.\<close>

type_synonym 'c loader = "string \<Rightarrow> provider \<Rightarrow> wallet option \<Rightarrow> js_error + 'c"

text \<open>
  \<open>contracts\<close> and \<open>loaders\<close> are JavaScript Maps: lists of entries in insertion order, where
  \<open>set\<close> replaces the value of a key that is present and appends a new key.
  \<open>rpcChanged\<close> lists the values published on the stream \<open>rpcChanged$\<close>.
\<close>

record 'c eth_connection =
  provider :: provider
  signer :: "wallet option"
  balance :: int
  gasPrices :: gas_prices
  contracts :: "(string \<times> 'c) list"
  loaders :: "(string \<times> 'c loader) list"
  rpcChanged :: "string list"

fun map_set :: "'k \<Rightarrow> 'v \<Rightarrow> ('k \<times> 'v) list \<Rightarrow> ('k \<times> 'v) list" where
  "map_set k v [] = [(k, v)]"
| "map_set k v ((k', v') # rest) =
     (if k' = k then (k, v) # rest else (k', v') # map_set k v rest)"

text \<open>
  reloadContracts: every loader is invoked with \<open>this.provider\<close> and \<open>this.signer\<close> as they
  are when its turn comes. A loader that fails ends the loop; the handles stored before
  stay. The result is the error, if any, and the connection afterwards.
\<close>

fun reload_loop ::
    "(string \<times> 'c loader) list \<Rightarrow> 'c eth_connection \<Rightarrow> js_error option \<times> 'c eth_connection" where
  "reload_loop [] c = (None, c)"
| "reload_loop ((address, loader) # rest) c =
     (case loader address (provider c) (signer c) of
        Inl e \<Rightarrow> (Some e, c)
      | Inr contract \<Rightarrow>
          reload_loop rest (c\<lparr> contracts := map_set address contract (contracts c) \<rparr>))"

definition reloadContracts :: "'c eth_connection \<Rightarrow> js_error option \<times> 'c eth_connection" where
  "reloadContracts c = reload_loop (loaders c) c"

definition loadContract ::
    "string \<Rightarrow> 'c loader \<Rightarrow> 'c eth_connection \<Rightarrow> (js_error + 'c) \<times> 'c eth_connection" where
  "loadContract address loader c =
     (let c1 = c\<lparr> loaders := map_set address loader (loaders c) \<rparr>
      in case loader address (provider c1) (signer c1) of
           Inl e \<Rightarrow> (Inl e, c1)
         | Inr contract \<Rightarrow>
             (Inr contract, c1\<lparr> contracts := map_set address contract (contracts c1) \<rparr>))"

definition getContract :: "string \<Rightarrow> 'c eth_connection \<Rightarrow> js_error + 'c" where
  "getContract address c =
     (case map_of (contracts c) address of
        None \<Rightarrow> Inl (Error ''Contract never loaded'')
      | Some contract \<Rightarrow> Inr contract)"

text \<open>
  setRpcUrl, statement by statement: the new provider is built, the contracts are
  reloaded, the new URL is published, and the provider field is assigned last.
\<close>

definition setRpcUrl :: "string \<Rightarrow> 'c eth_connection \<Rightarrow> js_error option \<times> 'c eth_connection" where
  "setRpcUrl rpcUrl c =
     (let newProvider = makeProvider rpcUrl
      in case reloadContracts c of
           (Some e, c1) \<Rightarrow> (Some e, c1)
         | (None, c1) \<Rightarrow>
             (None, c1\<lparr> rpcChanged := rpcChanged c1 @ [connection_url newProvider],
                        provider := newProvider \<rparr>))"

text \<open>
  setAccount: the signer field is assigned first, the balance is loaded (\<open>loaded\<close> is what
  loadBalance comes to), then the contracts are reloaded.
\<close>

definition setAccount ::
    "string \<Rightarrow> js_error + int \<Rightarrow> 'c eth_connection \<Rightarrow> js_error option \<times> 'c eth_connection" where
  "setAccount skey loaded c =
     (let c1 = c\<lparr> signer := Some (Wallet skey (provider c)) \<rparr>
      in case loaded of
           Inl e \<Rightarrow> (Some e, c1)
         | Inr b \<Rightarrow> reloadContracts (c1\<lparr> balance := b \<rparr>))"

text \<open>getAutoGasPrices of the connection: a copy of the latest gas prices.\<close>

definition conn_getAutoGasPrices :: "'c eth_connection \<Rightarrow> gas_prices" where
  "conn_getAutoGasPrices c = gasPrices c"

section \<open>ContractCaller\<close>

text \<open>
  The retry helper of the p-retry package. The function is tried again after a failure
  until \<open>retries\<close> retries are used up, and the error of the last attempt is the result
  then. A TypeError ends the retries at once and is the result (the TypeError of a failed
  network request is \<open>NetworkError\<close> here and is retried). The attempt number starts at 1.
  The function may change a state. What a function throws is an Error object.
\<close>

fun p_retry ::
    "(nat \<Rightarrow> 's \<Rightarrow> (js_error + 'a) \<times> 's) \<Rightarrow> nat \<Rightarrow> nat \<Rightarrow> 's \<Rightarrow> (js_error + 'a) \<times> 's" where
  "p_retry f 0 attemptNumber s = f attemptNumber s"
| "p_retry f (Suc retries) attemptNumber s =
     (case f attemptNumber s of
        (Inr v, s') \<Rightarrow> (Inr v, s')
      | (Inl e, s') \<Rightarrow>
          if e = TypeError then (Inl e, s')
          else p_retry f retries (Suc attemptNumber) s')"

text \<open>
  The caller owns a queue and the diagnostics counters \<open>totalCalls\<close> and \<open>callsInQueue\<close> of
  its updater, when one is set. \<open>invocations\<close> logs the attempt numbers at which the view
  function was invoked directly by makeCall.
\<close>

record 't contract_caller =
  queue :: "'t tcq"
  maxRetries :: nat
  diagnostics :: "(nat \<times> nat) option"
  invocations :: "nat list"

definition bump_totalCalls :: "'t contract_caller \<Rightarrow> 't contract_caller" where
  "bump_totalCalls c =
     c\<lparr> diagnostics := map_option (\<lambda>(totalCalls, callsInQueue). (Suc totalCalls, callsInQueue))
                          (diagnostics c) \<rparr>"

definition record_callsInQueue :: "'t contract_caller \<Rightarrow> 't contract_caller" where
  "record_callsInQueue c =
     c\<lparr> diagnostics := map_option (\<lambda>(totalCalls, callsInQueue). (totalCalls, size_tcq (queue c)))
                          (diagnostics c) \<rparr>"

text \<open>
  The function handed to the retry helper: it updates the diagnostics and awaits
  \<open>contractViewFunction(...args)\<close>. The view function is an asynchronous call to the chain;
  \<open>contractViewFunction k\<close> is what its invocation at attempt \<open>k\<close> comes to.
\<close>

definition call_attempt ::
    "(nat \<Rightarrow> js_error + 'a) \<Rightarrow> nat \<Rightarrow> 't contract_caller
      \<Rightarrow> (js_error + 'a) \<times> 't contract_caller" where
  "call_attempt contractViewFunction attemptNumber c =
     (let c1 = record_callsInQueue (bump_totalCalls c);
          c2 = c1\<lparr> invocations := invocations c1 @ [attemptNumber] \<rparr>
      in case contractViewFunction attemptNumber of
           Inl e \<Rightarrow> (Inl e, c2)
         | Inr callResult \<Rightarrow> (Inr callResult, record_callsInQueue c2))"

definition makeCall ::
    "(nat \<Rightarrow> js_error + 'a) \<Rightarrow> 't contract_caller \<Rightarrow> (js_error + 'a) \<times> 't contract_caller" where
  "makeCall contractViewFunction c =
     (let (result, c') = p_retry (call_attempt contractViewFunction) (maxRetries c) 1 c
      in (result, bump_totalCalls c'))"

text \<open>
  The constructor. Without a queue argument the caller makes its own queue, with at most
  10 starts per 100 ms and 20 calls in flight. A \<open>maxRetries\<close> argument that is absent or 0
  leaves the default, the constant \<open>DEFAULT_MAX_CALL_RETRIES\<close> of the constants package,
  which is a parameter here.
\<close>

definition new_ContractCaller ::
    "nat \<Rightarrow> 't tcq option \<Rightarrow> nat option \<Rightarrow> int \<Rightarrow> 't contract_caller" where
  "new_ContractCaller DEFAULT_MAX_CALL_RETRIES queue_arg maxRetries_arg now =
     \<lparr> queue = (case queue_arg of
                  Some q \<Rightarrow> q
                | None \<Rightarrow> projr (new_ThrottledConcurrentQueue 10 100 20 now)),
       maxRetries = (case maxRetries_arg of
                  Some n \<Rightarrow> if n \<noteq> 0 then n else DEFAULT_MAX_CALL_RETRIES
                | None \<Rightarrow> DEFAULT_MAX_CALL_RETRIES),
       diagnostics = None,
       invocations = [] \<rparr>"

text \<open>Sample data for the statements below.\<close>

definition sample_gas_prices :: gas_prices where
  "sample_gas_prices = \<lparr> slow = Fin 1, average = Fin 3, fast = Fin 10 \<rparr>"

text \<open>A loader whose handle records the address and the provider it was built for.\<close>

definition sample_loader :: "(string \<times> provider) loader" where
  "sample_loader address p s = Inr (address, p)"

definition sample_connection :: "(string \<times> provider) eth_connection" where
  "sample_connection =
     snd (loadContract ''0xabc'' sample_loader
       \<lparr> provider = makeProvider ''https://old.example'', signer = None, balance = 0,
         gasPrices = sample_gas_prices, contracts = [], loaders = [],
         rpcChanged = [''https://old.example''] \<rparr>)"

text \<open>A view function that fails at its first invocation and answers 7 afterwards.\<close>

definition sample_view :: "nat \<Rightarrow> js_error + nat" where
  "sample_view k = (if k = 1 then Inl NetworkError else Inr 7)"

section \<open>TxExecutor\<close>

text \<open>
  The executor's own state. \<open>nonce\<close> is \<open>None\<close> while it is \<open>undefined\<close>. The queue is built
  with at most 3 starts per 100 ms and one task in flight, so \<open>execute\<close> runs for one
  transaction at a time, in the order of \<open>queueTransaction\<close>. The diagnostics counters and
  the log event handed to \<open>afterTransaction\<close> are written and never read by the executor;
  they are left out.
\<close>

record queued_tx =
  actionId :: string
  contract :: string
  methodName :: string
  args :: "jsval list"
  overrides_ref :: nat

record tx_executor =
  nonce :: "nat option"
  lastTransactionTimestamp :: int
  tx_queue :: "queued_tx tcq"

definition TX_SUBMIT_TIMEOUT :: int where
  "TX_SUBMIT_TIMEOUT = 30000"

definition NONCE_STALE_AFTER_MS :: int where
  "NONCE_STALE_AFTER_MS = 5000"

definition new_TxExecutor :: "int \<Rightarrow> tx_executor" where
  "new_TxExecutor now =
     \<lparr> nonce = None, lastTransactionTimestamp = now,
       tx_queue = projr (new_ThrottledConcurrentQueue 3 100 1 now) \<rparr>"

text \<open>
  What the outside world does during one run of \<open>execute\<close>: the clock read by
  maybeUpdateNonce; what \<open>ethConnection.getNonce()\<close> comes to if it is called (an error, or
  a number, or \<open>undefined\<close>); whether the \<open>beforeTransaction\<close> hook throws (\<open>None\<close> when
  there is no hook or it resolves); what the contract method under the 30 s timeout comes
  to (an error, among them the timeout, or a response with its hash); the clock read after
  the submission; and what \<open>waitForTransaction\<close> comes to (an error, or a receipt with
  its status).
\<close>

record exec_world =
  now_nonce :: int
  chain_nonce :: "js_error + nat option"
  before_transaction :: "js_error option"
  submission :: "js_error + string"
  now_submitted :: int
  receipt :: "js_error + int"

datatype callback =
  OnSubmissionError | OnReceiptError | OnTransactionResponse | OnTransactionReceipt

text \<open>
  The outcome of one run: the executor afterwards, the callbacks of the queued transaction
  in the order in which they are invoked (those of the detached receipt wait come last),
  whether \<open>getNonce\<close> was called, and the \<open>nonce\<close> field the submission carried when a
  submission was made.
\<close>

record exec_result =
  executor_after :: tx_executor
  fired :: "callback list"
  fetched_nonce :: bool
  submitted_nonce :: "nat option option"

text \<open>maybeUpdateNonce: whether the nonce was fetched, and the executor or the error of the fetch.\<close>

definition maybeUpdateNonce ::
    "int \<Rightarrow> js_error + nat option \<Rightarrow> tx_executor \<Rightarrow> bool \<times> (js_error + tx_executor)" where
  "maybeUpdateNonce now fetched ex =
     (if nonce ex = None \<or> now - lastTransactionTimestamp ex > NONCE_STALE_AFTER_MS then
        (True,
         case fetched of
           Inl e \<Rightarrow> Inl e
         | Inr newNonce \<Rightarrow>
             Inr (case newNonce of None \<Rightarrow> ex | Some n \<Rightarrow> ex\<lparr> nonce := Some n \<rparr>))
      else (False, Inr ex))"

text \<open>
  The \<open>catch\<close> block: the error goes to onSubmissionError when \<open>time_submitted\<close> is falsy
  (\<open>undefined\<close> or 0) and to onReceiptError otherwise.
\<close>

definition catch_callback :: "int option \<Rightarrow> callback" where
  "catch_callback time_submitted =
     (if time_submitted = None \<or> time_submitted = Some 0 then OnSubmissionError
      else OnReceiptError)"

text \<open>
  The detached \<open>waitForTransaction(hash).then(...).catch(onReceiptError)\<close>: a receipt goes to
  onTransactionReceipt whatever its status, a failure of the wait to onReceiptError.
\<close>

definition receipt_callbacks :: "js_error + int \<Rightarrow> callback list" where
  "receipt_callbacks r = (case r of Inr status \<Rightarrow> [OnTransactionReceipt] | Inl e \<Rightarrow> [OnReceiptError])"

definition execute :: "exec_world \<Rightarrow> tx_executor \<Rightarrow> exec_result" where
  "execute w ex =
     (case maybeUpdateNonce (now_nonce w) (chain_nonce w) ex of
        (fetched, Inl e) \<Rightarrow>
          \<lparr> executor_after = ex, fired = [catch_callback None],
            fetched_nonce = fetched, submitted_nonce = None \<rparr>
      | (fetched, Inr ex1) \<Rightarrow>
          (case before_transaction w of
             Some e \<Rightarrow>
               \<lparr> executor_after = ex1, fired = [catch_callback None],
                 fetched_nonce = fetched, submitted_nonce = None \<rparr>
           | None \<Rightarrow>
               (case submission w of
                  Inl e \<Rightarrow>
                    \<lparr> executor_after = ex1, fired = [catch_callback None],
                      fetched_nonce = fetched, submitted_nonce = Some (nonce ex1) \<rparr>
                | Inr hash \<Rightarrow>
                    (let time_submitted = now_submitted w;
                         ex2 = ex1\<lparr> nonce := (case nonce ex1 of
                                               None \<Rightarrow> None
                                             | Some n \<Rightarrow> Some (n + 1)),
                                     lastTransactionTimestamp := time_submitted \<rparr>
                     in \<lparr> executor_after = ex2,
                          fired = OnTransactionResponse # receipt_callbacks (receipt w),
                          fetched_nonce = fetched,
                          submitted_nonce = Some (nonce ex1) \<rparr>))))"

text \<open>
  How a run ends, after the state machine of a transaction: the submission failed (the
  nonce fetch, the hook or the contract method failed), the receipt wait failed, or a
  receipt arrived (with status 1, or reverted).
\<close>

datatype tx_outcome = SubmitFailed | ReceiptFailed | Confirmed | Reverted

definition run_outcome :: "exec_world \<Rightarrow> tx_executor \<Rightarrow> tx_outcome" where
  "run_outcome w ex =
     (if isl (snd (maybeUpdateNonce (now_nonce w) (chain_nonce w) ex))
         \<or> before_transaction w \<noteq> None \<or> isl (submission w) then SubmitFailed
      else case receipt w of
             Inl e \<Rightarrow> ReceiptFailed
           | Inr status \<Rightarrow> if status = 1 then Confirmed else Reverted)"

text \<open>
  The two promises of a pending transaction, made with p-defer: the first call of
  \<open>resolve\<close> or \<open>reject\<close> settles a promise and later calls change nothing.
  queueTransaction wires onSubmissionError and onTransactionResponse to \<open>submitted\<close>,
  onReceiptError and onTransactionReceipt to \<open>confirmed\<close>.
\<close>

datatype promise = Pending | Resolved | Rejected

definition settle :: "promise \<Rightarrow> promise \<Rightarrow> promise" where
  "settle p outcome = (if p = Pending then outcome else p)"

record pending_transaction =
  submitted :: promise
  confirmed :: promise

fun deliver :: "pending_transaction \<Rightarrow> callback \<Rightarrow> pending_transaction" where
  "deliver p OnSubmissionError = p\<lparr> submitted := settle (submitted p) Rejected \<rparr>"
| "deliver p OnTransactionResponse = p\<lparr> submitted := settle (submitted p) Resolved \<rparr>"
| "deliver p OnReceiptError = p\<lparr> confirmed := settle (confirmed p) Rejected \<rparr>"
| "deliver p OnTransactionReceipt = p\<lparr> confirmed := settle (confirmed p) Resolved \<rparr>"

definition promises_after :: "callback list \<Rightarrow> pending_transaction" where
  "promises_after cbs = foldl deliver \<lparr> submitted = Pending, confirmed = Pending \<rparr> cbs"

text \<open>
  The transaction overrides are objects that the caller may share with the executor: the
  heap lists the objects and a reference is an index into it. Only the two fields that
  the executor names are kept; \<open>None\<close> is \<open>undefined\<close>, the gas price is in wei.
\<close>

record overrides =
  gasPrice :: "int option"
  gasLimit :: "int option"

record tx_state =
  executor :: tx_executor
  heap :: "overrides list"

text \<open>
  Network.gweiToWei is \<open>parseUnits(gwei + '', 'gwei')\<close> of the ethers library. The number
  is first printed: \<open>NaN\<close> and the infinities print as words, a number of magnitude
  \<open>10^21\<close> or more, or below \<open>10^-6\<close> and not zero, prints in exponent notation, any other
  number prints as its decimal digits. \<open>parseUnits\<close> throws unless the text consists of an
  optional minus sign, digits and a decimal point, and throws when more than nine digits
  follow the point; otherwise the result is the number of wei.
\<close>

definition gweiToWei :: "jsnum \<Rightarrow> js_error + int" where
  "gweiToWei gwei =
     (case gwei of
        Fin r \<Rightarrow>
          if r = 0 then Inr 0
          else if 10 ^ 21 \<le> \<bar>r\<bar> \<or> \<bar>r\<bar> < 1 / 10 ^ 6 then Inl (Error ''invalid decimal value'')
          else if of_int \<lfloor>r * 10 ^ 9\<rfloor> = r * 10 ^ 9 then Inr \<lfloor>r * 10 ^ 9\<rfloor>
          else Inl (Error ''fractional component exceeds decimals'')
      | _ \<Rightarrow> Inl (Error ''invalid decimal value''))"

text \<open>
  queueTransaction. \<open>conn\<close> is the connection and \<open>gasSettingProvider\<close> what the provider of
  the gas setting returns. Without an \<open>overrides\<close> argument a new object
  \<open>{gasPrice: undefined, gasLimit: 2000000}\<close> is made. An argument that refers to no object
  stands for \<open>null\<close>: reading its gas price throws. \<open>now\<close> is the instant of the call. The
  result is the error thrown, if any, and the state afterwards. The two promises returned
  are as \<open>promises_after\<close> gives them once \<open>execute\<close> has run.
\<close>

definition queueTransaction ::
    "'c eth_connection \<Rightarrow> string \<Rightarrow> int
      \<Rightarrow> string \<Rightarrow> string \<Rightarrow> string \<Rightarrow> jsval list \<Rightarrow> nat option
      \<Rightarrow> tx_state \<Rightarrow> js_error option \<times> tx_state" where
  "queueTransaction conn gasSettingProvider now
       actionId' contract' methodName' args' overrides_arg st =
     (let (r, h1) = (case overrides_arg of
                       None \<Rightarrow> (length (heap st),
                                 heap st @ [\<lparr> gasPrice = None, gasLimit = Some 2000000 \<rparr>])
                     | Some r \<Rightarrow> (r, heap st))
      in if length h1 \<le> r then (Some TypeError, st)
         else
           (case (if gasPrice (h1 ! r) = None then
                    (case gweiToWei (getAutoGasPriceGwei (conn_getAutoGasPrices conn)
                                       gasSettingProvider) of
                       Inl e \<Rightarrow> Inl e
                     | Inr wei \<Rightarrow> Inr (h1[r := (h1 ! r)\<lparr> gasPrice := Some wei \<rparr>]))
                  else Inr h1) of
              Inl e \<Rightarrow> (Some e, st\<lparr> heap := h1 \<rparr>)
            | Inr h2 \<Rightarrow>
                (None,
                 \<lparr> executor = (executor st)\<lparr> tx_queue :=
                          add \<lparr> actionId = actionId', contract = contract',
                                methodName = methodName', args = args',
                                overrides_ref = r \<rparr>
                              ((tx_queue (executor st))\<lparr> clock := now \<rparr>) \<rparr>,
                   heap = h2 \<rparr>)))"

section \<open>Properties of the gas price functions\<close>

lemma clampGwei_in_range:
  assumes "js_le (Fin 1) M" and "x \<noteq> NaN"
  shows "in_gwei_range M (clampGwei M x)"
  using assms
  by (cases M; cases x) (auto simp: in_gwei_range_def clampGwei_def math_min_def math_max_def)

lemma own_property_json:
  assumes "is_json (JObj fs)"
  shows "own_property fs k \<noteq> JNum NaN"
proof (cases "map_of fs k")
  case None
  then show ?thesis by (simp add: own_property_def)
next
  case (Some v)
  then have "v \<in> snd ` set fs"
    by (metis map_of_SomeD snd_conv image_eqI)
  with assms have "is_json v" by auto
  then have "v \<noteq> JNum NaN" by auto
  with Some show ?thesis by (simp add: own_property_def)
qed

lemma numberOr_not_NaN:
  assumes "v \<noteq> JNum NaN" and "d \<noteq> NaN"
  shows "numberOr v d \<noteq> NaN"
  using assms by (cases v) (auto simp: numberOr_def)

lemma cleanGasPrices_in_range:
  assumes "js_le (Fin 1) M"
    and "slow D \<noteq> NaN \<and> average D \<noteq> NaN \<and> fast D \<noteq> NaN"
    and "is_json v" and "cleanGasPrices D M v = Inr p"
  shows "in_gwei_range M (slow p) \<and> in_gwei_range M (average p) \<and> in_gwei_range M (fast p)"
proof -
  have e: "own_property [] k = JUndefined" for k
    by (simp add: own_property_def)
  show ?thesis
  proof (cases v)
    case (JObj fs)
    with assms(3) have n: "\<And>k d. d \<noteq> NaN \<Longrightarrow> numberOr (own_property fs k) d \<noteq> NaN"
      using own_property_json numberOr_not_NaN by blast
    from JObj assms(4) have "p = clean_fields D M fs" by simp
    then show ?thesis
      using assms(1,2) n by (simp add: clean_fields_def clampGwei_in_range)
  next
    case (JArr xs)
    with assms(4) have "p = clean_fields D M []" by simp
    then show ?thesis
      using assms(1,2) by (simp add: clean_fields_def clampGwei_in_range e numberOr_def)
  qed (use assms(4) in simp_all)
qed

text \<open>
  C7. getAutoGasPrices never raises (its result is never \<open>Inl\<close>). When the request or the
  parse fails it returns the defaults. For a parsed JSON object each of slow, average and
  fast is the field itself when it is a number and the default otherwise, clamped by
  \<open>Math.max(1, Math.min(MAX, _))\<close>, and lies between 1 and MAX. For every answer that
  is JSON, whatever its shape, the three prices returned lie between 1 and MAX as soon as
  the defaults do. The constants are parameters: MAX is at least 1 and the defaults are
  numbers other than NaN.
\<close>

theorem getAutoGasPrices_clamped:
  assumes "js_le (Fin 1) M"
    and "slow D \<noteq> NaN \<and> average D \<noteq> NaN \<and> fast D \<noteq> NaN"
  shows "(\<exists>p. getAutoGasPrices D M r = Inr p)
       \<and> (r = FetchFailed \<or> r = JsonFailed \<longrightarrow> getAutoGasPrices D M r = Inr D)
       \<and> (\<forall>fs. r = Parsed (JObj fs) \<and> is_json (JObj fs) \<longrightarrow>
            (\<exists>p. getAutoGasPrices D M r = Inr p
               \<and> slow p = clampGwei M (numberOr (own_property fs ''slow'') (slow D))
               \<and> average p = clampGwei M (numberOr (own_property fs ''average'') (average D))
               \<and> fast p = clampGwei M (numberOr (own_property fs ''fast'') (fast D))
               \<and> in_gwei_range M (slow p) \<and> in_gwei_range M (average p)
               \<and> in_gwei_range M (fast p)))
       \<and> (\<forall>p. (\<forall>v. r = Parsed v \<longrightarrow> is_json v)
               \<and> in_gwei_range M (slow D) \<and> in_gwei_range M (average D)
               \<and> in_gwei_range M (fast D)
               \<and> getAutoGasPrices D M r = Inr p \<longrightarrow>
            in_gwei_range M (slow p) \<and> in_gwei_range M (average p)
            \<and> in_gwei_range M (fast p))"
proof (intro conjI allI)
  show "\<exists>p. getAutoGasPrices D M r = Inr p"
    by (simp add: getAutoGasPrices_def split: sum.splits)
next
  show "r = FetchFailed \<or> r = JsonFailed \<longrightarrow> getAutoGasPrices D M r = Inr D"
    by (auto simp: getAutoGasPrices_def getAutoGasPrices_try_def)
next
  fix fs
  show "r = Parsed (JObj fs) \<and> is_json (JObj fs) \<longrightarrow>
            (\<exists>p. getAutoGasPrices D M r = Inr p
               \<and> slow p = clampGwei M (numberOr (own_property fs ''slow'') (slow D))
               \<and> average p = clampGwei M (numberOr (own_property fs ''average'') (average D))
               \<and> fast p = clampGwei M (numberOr (own_property fs ''fast'') (fast D))
               \<and> in_gwei_range M (slow p) \<and> in_gwei_range M (average p)
               \<and> in_gwei_range M (fast p))"
  proof
    assume h: "r = Parsed (JObj fs) \<and> is_json (JObj fs)"
    then have c: "cleanGasPrices D M (JObj fs) = Inr (clean_fields D M fs)" by simp
    have r: "getAutoGasPrices D M r = Inr (clean_fields D M fs)"
      using h by (simp add: getAutoGasPrices_def getAutoGasPrices_try_def)
    have "in_gwei_range M (slow (clean_fields D M fs))
        \<and> in_gwei_range M (average (clean_fields D M fs))
        \<and> in_gwei_range M (fast (clean_fields D M fs))"
      using assms h c by (intro cleanGasPrices_in_range [of M D "JObj fs"]) simp_all
    with r show "\<exists>p. getAutoGasPrices D M r = Inr p
               \<and> slow p = clampGwei M (numberOr (own_property fs ''slow'') (slow D))
               \<and> average p = clampGwei M (numberOr (own_property fs ''average'') (average D))
               \<and> fast p = clampGwei M (numberOr (own_property fs ''fast'') (fast D))
               \<and> in_gwei_range M (slow p) \<and> in_gwei_range M (average p)
               \<and> in_gwei_range M (fast p)"
      by (simp add: clean_fields_def)
  qed
next
  fix p
  show "(\<forall>v. r = Parsed v \<longrightarrow> is_json v)
               \<and> in_gwei_range M (slow D) \<and> in_gwei_range M (average D)
               \<and> in_gwei_range M (fast D)
               \<and> getAutoGasPrices D M r = Inr p \<longrightarrow>
            in_gwei_range M (slow p) \<and> in_gwei_range M (average p)
            \<and> in_gwei_range M (fast p)"
  proof
    assume h: "(\<forall>v. r = Parsed v \<longrightarrow> is_json v)
               \<and> in_gwei_range M (slow D) \<and> in_gwei_range M (average D)
               \<and> in_gwei_range M (fast D)
               \<and> getAutoGasPrices D M r = Inr p"
    show "in_gwei_range M (slow p) \<and> in_gwei_range M (average p) \<and> in_gwei_range M (fast p)"
    proof (cases "getAutoGasPrices_try D M r")
      case (Inl e)
      with h have "p = D" by (simp add: getAutoGasPrices_def)
      with h show ?thesis by simp
    next
      case (Inr p')
      with h have pp: "p' = p" by (simp add: getAutoGasPrices_def)
      from Inr obtain v where v: "r = Parsed v" "cleanGasPrices D M v = Inr p'"
        by (cases r) (auto simp: getAutoGasPrices_try_def)
      with h have "is_json v" by simp
      with assms v(2) pp show ?thesis
        by (intro cleanGasPrices_in_range [of M D v]) simp_all
    qed
  qed
qed

text \<open>
  The theorem at the oracle answer \<open>{slow: "x", average: 500000, fast: 7}\<close> with MAX = 100
  and defaults 1, 3, 10: the result is \<open>{slow: 1, average: 100, fast: 7}\<close>.
\<close>

theorem getAutoGasPrices_clamped_witness:
  "js_le (Fin 1) (Fin 100)
   \<and> getAutoGasPrices \<lparr>slow = Fin 1, average = Fin 3, fast = Fin 10\<rparr> (Fin 100)
        (Parsed (JObj [(''slow'', JStr ''x''), (''average'', JNum (Fin 500000)),
                       (''fast'', JNum (Fin 7))]))
      = Inr \<lparr>slow = Fin 1, average = Fin 100, fast = Fin 7\<rparr>
   \<and> in_gwei_range (Fin 100) (Fin 1) \<and> in_gwei_range (Fin 100) (Fin 100)
   \<and> in_gwei_range (Fin 100) (Fin 7)"
  using getAutoGasPrices_clamped [of "Fin 100" "\<lparr>slow = Fin 1, average = Fin 3, fast = Fin 10\<rparr>"
      "Parsed (JObj [(''slow'', JStr ''x''), (''average'', JNum (Fin 500000)),
                     (''fast'', JNum (Fin 7))])"]
  by (simp add: getAutoGasPrices_def getAutoGasPrices_try_def clean_fields_def clampGwei_def
      math_min_def math_max_def own_property_def numberOr_def in_gwei_range_def)

text \<open>
  C8 as the code has it. For the settings Slow, Average and Fast the function returns the
  matching field. For any other setting it returns \<open>parseFloat setting\<close> whenever that is
  not NaN, so also an infinity, and returns the average price only when it is NaN.
\<close>

theorem getAutoGasPriceGwei_cases:
  "getAutoGasPriceGwei p s =
     (if s = ''Slow'' then slow p
      else if s = ''Average'' then average p
      else if s = ''Fast'' then fast p
      else if parseFloat s \<noteq> NaN then parseFloat s
      else average p)"
  by (simp add: getAutoGasPriceGwei_def getGasSettingGwei_def isNaN_def Let_def)

theorem getAutoGasPriceGwei_cases_witness:
  "getAutoGasPriceGwei \<lparr>slow = Fin 1, average = Fin 3, fast = Fin 10\<rparr> ''Fast'' = Fin 10"
  using getAutoGasPriceGwei_cases [of "\<lparr>slow = Fin 1, average = Fin 3, fast = Fin 10\<rparr>" "''Fast''"]
  by simp

text \<open>
  C8 as stated fails at the setting \<open>"Infinity"\<close>: it is none of the three names and parses
  to a value that is not finite, yet the function returns that value and not the average
  price.
\<close>

theorem getAutoGasPriceGwei_infinity:
  "''Infinity'' \<noteq> ''Slow'' \<and> ''Infinity'' \<noteq> ''Average'' \<and> ''Infinity'' \<noteq> ''Fast''
   \<and> \<not> is_finite (parseFloat ''Infinity'')
   \<and> getAutoGasPriceGwei \<lparr>slow = Fin 1, average = Fin 3, fast = Fin 10\<rparr> ''Infinity'' = PosInf
   \<and> average \<lparr>slow = Fin 1, average = Fin 3, fast = Fin 10\<rparr> \<noteq> PosInf"
  by (simp add: getAutoGasPriceGwei_def getGasSettingGwei_def isNaN_def parseFloat_def
      split_sign_def StrWhiteSpaceChar_def)

section \<open>The rate bound of the queue\<close>

lemma starts_in_window_fst:
  "starts_in_window t w q = length (filter (\<lambda>s. t \<le> s \<and> s \<le> t + w) (map fst (started q)))"
  by (simp add: starts_in_window_def filter_map comp_def case_prod_unfold)

lemma delete_outdated_split:
  "\<exists>dropped. xs = dropped @ delete_outdated now w xs \<and> (\<forall>x \<in> set dropped. x < now - w)"
proof (induction xs)
  case Nil
  then show ?case by simp
next
  case (Cons a xs)
  show ?case
  proof (cases "a \<noteq> 0 \<and> a < now - w")
    case True
    from Cons obtain dropped where d: "xs = dropped @ delete_outdated now w xs"
      "\<forall>x \<in> set dropped. x < now - w" by blast
    have "a # xs = (a # dropped) @ delete_outdated now w (a # xs)"
      using True d(1) by simp
    moreover have "\<forall>x \<in> set (a # dropped). x < now - w" using True d(2) by simp
    ultimately show ?thesis by blast
  next
    case False
    then have "a # xs = [] @ delete_outdated now w (a # xs)" by auto
    then show ?thesis by (metis empty_iff list.set(1))
  qed
qed

lemma delete_outdated_length: "length (delete_outdated now w xs) \<le> length xs"
  by (induction xs) auto

text \<open>The invariant reads five fields of the state only.\<close>

lemma rate_inv_cong:
  assumes "rate_inv q"
    and "executionTimestamps q' = executionTimestamps q" and "capacity q' = capacity q"
    and "invocationIntervalMs q' = invocationIntervalMs q" and "clock q' = clock q"
    and "started q' = started q"
  shows "rate_inv q'"
  using assms unfolding rate_inv_def starts_in_window_def by simp

lemma rate_inv_clock:
  assumes "rate_inv q" and "clock q \<le> t"
  shows "rate_inv (q\<lparr>clock := t\<rparr>)"
proof -
  from assms(1) obtain pruned where p: "map fst (started q) = pruned @ executionTimestamps q"
    "\<forall>x \<in> set pruned. x + invocationIntervalMs q < clock q"
    unfolding rate_inv_def by blast
  from p(2) assms(2) have "\<forall>x \<in> set pruned. x + invocationIntervalMs q < t" by fastforce
  with p(1) assms(1) show ?thesis
    unfolding rate_inv_def starts_in_window_def by auto
qed

lemma rate_inv_advance:
  assumes "rate_inv q"
  shows "rate_inv (advance ms q)"
  unfolding advance_def using assms by (rule rate_inv_clock) simp

lemma rate_inv_prune:
  assumes "rate_inv q"
  shows "rate_inv (deleteOutdatedExecutionTimestamps q)"
proof -
  let ?w = "invocationIntervalMs q"
  let ?now = "clock q"
  from assms(1) obtain pruned where p: "map fst (started q) = pruned @ executionTimestamps q"
    "\<forall>x \<in> set pruned. x + ?w < clock q"
    unfolding rate_inv_def by blast
  obtain dropped where d:
    "executionTimestamps q = dropped @ delete_outdated ?now ?w (executionTimestamps q)"
    "\<forall>x \<in> set dropped. x < ?now - ?w"
    using delete_outdated_split by blast
  have 1: "map fst (started q) = (pruned @ dropped) @ delete_outdated ?now ?w (executionTimestamps q)"
    using p(1) d(1) by simp
  have 2: "\<forall>x \<in> set (pruned @ dropped). x + ?w < clock q"
    using p(2) d(2) by auto
  have 3: "length (delete_outdated ?now ?w (executionTimestamps q)) \<le> capacity q"
    using assms(1) delete_outdated_length [of ?now ?w "executionTimestamps q"]
    unfolding rate_inv_def by linarith
  have 4: "\<forall>t. starts_in_window t ?w q \<le> capacity q"
    using assms(1) unfolding rate_inv_def by blast
  show ?thesis
    unfolding rate_inv_def deleteOutdatedExecutionTimestamps_def Let_def
    using 1 2 3 4 by (auto simp: starts_in_window_def)
qed

text \<open>
  A start when the buffer has room: a window that holds the new instant begins at most one
  interval before it, so it holds no pruned start, and its starts are in the buffer.
\<close>

lemma rate_inv_next_task:
  assumes "rate_inv q" and "length (executionTimestamps q) < capacity q"
  shows "rate_inv (next_task q)"
proof (cases "taskQueue q = []")
  case True
  then show ?thesis using assms(1) by (simp add: next_task_def)
next
  case False
  let ?w = "invocationIntervalMs q"
  let ?now = "clock q"
  let ?q' = "next_task q"
  from assms(1) obtain pruned where p: "map fst (started q) = pruned @ executionTimestamps q"
    "\<forall>x \<in> set pruned. x + ?w < clock q"
    unfolding rate_inv_def by blast
  have ts: "executionTimestamps ?q' = executionTimestamps q @ [?now]"
    using False assms(2) by (simp add: next_task_def buffer_push_def)
  have st: "map fst (started ?q') = map fst (started q) @ [?now]"
    using False by (simp add: next_task_def)
  have same: "invocationIntervalMs ?q' = ?w" "capacity ?q' = capacity q" "clock ?q' = clock q"
    using False by (simp_all add: next_task_def)
  have a: "length (executionTimestamps ?q') \<le> capacity ?q'"
    using ts assms(2) same by simp
  have b: "map fst (started ?q') = pruned @ executionTimestamps ?q'"
    using st ts p(1) by simp
  have c: "starts_in_window t ?w ?q' \<le> capacity q" for t
  proof (cases "t \<le> ?now \<and> ?now \<le> t + ?w")
    case False
    then have "starts_in_window t ?w ?q' = starts_in_window t ?w q"
      unfolding starts_in_window_fst st by auto
    then show ?thesis using assms(1) unfolding rate_inv_def by simp
  next
    case True
    have "filter (\<lambda>s. t \<le> s \<and> s \<le> t + ?w) pruned = []"
      using p(2) True by (auto simp: filter_empty_conv)
    then have "starts_in_window t ?w ?q'
        = length (filter (\<lambda>s. t \<le> s \<and> s \<le> t + ?w) (executionTimestamps q)) + 1"
      unfolding starts_in_window_fst st p(1) using True by simp
    also have "\<dots> \<le> length (executionTimestamps q) + 1"
      by simp
    also have "\<dots> \<le> capacity q" using assms(2) by simp
    finally show ?thesis .
  qed
  show ?thesis
    unfolding rate_inv_def using a b c p(2) same by auto
qed

lemma next_task_fields:
  "capacity (next_task q) = capacity q"
  "invocationIntervalMs (next_task q) = invocationIntervalMs q"
  "length (executionTimestamps (next_task q)) \<le> Suc (length (executionTimestamps q))"
  by (auto simp: next_task_def buffer_push_def)

lemma advance_fields:
  "capacity (advance ms q) = capacity q"
  "invocationIntervalMs (advance ms q) = invocationIntervalMs q"
  "executionTimestamps (advance ms q) = executionTimestamps q"
  by (simp_all add: advance_def)

lemma rate_inv_start_tasks:
  assumes "rate_inv q" and "length (executionTimestamps q) + n \<le> capacity q"
  shows "rate_inv (start_tasks n d q)"
  using assms
proof (induction n arbitrary: d q)
  case 0
  then show ?case by simp
next
  case (Suc n)
  let ?q1 = "advance (d 0) q"
  let ?q2 = "next_task ?q1"
  have 1: "rate_inv ?q1" using Suc.prems(1) by (rule rate_inv_advance)
  have l1: "length (executionTimestamps ?q1) < capacity ?q1"
    using Suc.prems(2) by (simp add: advance_fields)
  from 1 l1 have 2: "rate_inv ?q2" by (rule rate_inv_next_task)
  have "length (executionTimestamps ?q2) \<le> Suc (length (executionTimestamps q))"
    using next_task_fields(3) [of ?q1] by (simp add: advance_fields)
  moreover have "capacity ?q2 = capacity q"
    by (simp add: next_task_fields advance_fields)
  ultimately have "length (executionTimestamps ?q2) + n \<le> capacity ?q2"
    using Suc.prems(2) by linarith
  with 2 have "rate_inv (start_tasks n (\<lambda>k. d (Suc k)) ?q2)" by (rule Suc.IH)
  then show ?case by simp
qed

lemma tasksToExecute_le: "tasksToExecute q \<le> capacity q - length (executionTimestamps q)"
  by (simp add: tasksToExecute_def throttleQuotaRemaining_def split: enat.splits)

lemma rate_inv_schedule_wake:
  assumes "rate_inv q"
  shows "rate_inv (schedule_wake q)"
  using assms
  by (rule rate_inv_cong)
     (auto simp: schedule_wake_def setTimeout_def clearTimeout_def Let_def
           split: option.splits)

lemma rate_inv_executeNextTasks:
  assumes "rate_inv q"
  shows "rate_inv (executeNextTasks d q)"
proof -
  let ?q1 = "deleteOutdatedExecutionTimestamps q"
  have 1: "rate_inv ?q1" using assms by (rule rate_inv_prune)
  then have l: "length (executionTimestamps ?q1) \<le> capacity ?q1"
    unfolding rate_inv_def by blast
  have "length (executionTimestamps ?q1) + tasksToExecute ?q1 \<le> capacity ?q1"
    using tasksToExecute_le [of ?q1] l by linarith
  with 1 have "rate_inv (start_tasks (tasksToExecute ?q1) d ?q1)"
    by (rule rate_inv_start_tasks)
  then have "rate_inv (advance (d (tasksToExecute ?q1)) (start_tasks (tasksToExecute ?q1) d ?q1))"
    by (rule rate_inv_advance)
  then show ?thesis
    by (simp add: executeNextTasks_def Let_def rate_inv_schedule_wake)
qed

lemma rate_inv_step:
  assumes "rate_inv q" and "step e q = Some q'"
  shows "rate_inv q'"
proof (cases e)
  case (Add x now)
  with assms(2) have t: "clock q \<le> now" and q': "q' = add x (q\<lparr>clock := now\<rparr>)"
    by (auto split: if_splits)
  have "rate_inv (q\<lparr>clock := now\<rparr>)" using assms(1) t by (rule rate_inv_clock)
  then show ?thesis unfolding q'
    by (rule rate_inv_cong) (simp_all add: add_def setTimeout_def)
next
  case (Timeout h now d)
  with assms(2) have t: "clock q \<le> now"
    and q': "q' = executeNextTasks d (clearTimeout h (q\<lparr>clock := now\<rparr>))"
    by (auto split: if_splits)
  have "rate_inv (q\<lparr>clock := now\<rparr>)" using assms(1) t by (rule rate_inv_clock)
  then have "rate_inv (clearTimeout h (q\<lparr>clock := now\<rparr>))"
    by (rule rate_inv_cong) (simp_all add: clearTimeout_def)
  then show ?thesis unfolding q'
    by (rule rate_inv_executeNextTasks)
next
  case (Complete now)
  with assms(2) have t: "clock q \<le> now" and q': "q' = task_done (q\<lparr>clock := now\<rparr>)"
    by (auto split: if_splits)
  have "rate_inv (q\<lparr>clock := now\<rparr>)" using assms(1) t by (rule rate_inv_clock)
  then show ?thesis unfolding q'
    by (rule rate_inv_cong) (simp_all add: task_done_def)
next
  case (Then now d)
  with assms(2) have t: "clock q \<le> now"
    and q': "q' = executeNextTasks d (q\<lparr>clock := now, finished := finished q - 1\<rparr>)"
    by (auto split: if_splits)
  have "rate_inv (q\<lparr>clock := now\<rparr>)" using assms(1) t by (rule rate_inv_clock)
  then have "rate_inv (q\<lparr>clock := now, finished := finished q - 1\<rparr>)"
    by (rule rate_inv_cong) simp_all
  then show ?thesis unfolding q'
    by (rule rate_inv_executeNextTasks)
qed

lemma rate_inv_run:
  assumes "rate_inv q" and "run es q = Some q'"
  shows "rate_inv q'"
  using assms
proof (induction es arbitrary: q)
  case Nil
  then show ?case by simp
next
  case (Cons e es)
  then obtain q1 where s: "step e q = Some q1" and r: "run es q1 = Some q'"
    by (auto split: option.splits)
  from Cons.prems(1) s have "rate_inv q1" by (rule rate_inv_step)
  then show ?case using r by (rule Cons.IH)
qed

lemma rate_inv_new:
  assumes "new_ThrottledConcurrentQueue R W C now = Inr q"
  shows "rate_inv q \<and> capacity q = R \<and> invocationIntervalMs q = W"
  using assms
  by (auto simp: new_ThrottledConcurrentQueue_def rate_inv_def starts_in_window_def
           split: if_splits)

lemma start_tasks_fields:
  "capacity (start_tasks n d q) = capacity q
   \<and> invocationIntervalMs (start_tasks n d q) = invocationIntervalMs q"
  by (induction n arbitrary: d q) (simp_all add: next_task_fields advance_fields)

lemma executeNextTasks_fields:
  "capacity (executeNextTasks d q) = capacity q
   \<and> invocationIntervalMs (executeNextTasks d q) = invocationIntervalMs q"
proof -
  have w: "capacity (schedule_wake q') = capacity q'
      \<and> invocationIntervalMs (schedule_wake q') = invocationIntervalMs q'" for q' :: "'a tcq"
    by (auto simp: schedule_wake_def setTimeout_def clearTimeout_def Let_def
             split: option.splits)
  show ?thesis
    by (simp add: executeNextTasks_def Let_def w start_tasks_fields advance_fields
        deleteOutdatedExecutionTimestamps_def)
qed

lemma step_fields:
  assumes "step e q = Some q'"
  shows "capacity q' = capacity q \<and> invocationIntervalMs q' = invocationIntervalMs q"
  using assms
  by (cases e)
     (auto simp: executeNextTasks_fields add_def setTimeout_def clearTimeout_def task_done_def
           split: if_splits)

lemma run_fields:
  assumes "run es q = Some q'"
  shows "capacity q' = capacity q \<and> invocationIntervalMs q' = invocationIntervalMs q"
  using assms
proof (induction es arbitrary: q)
  case Nil
  then show ?case by simp
next
  case (Cons e es)
  then obtain q1 where s: "step e q = Some q1" and r: "run es q1 = Some q'"
    by (auto split: option.splits)
  from step_fields [OF s] Cons.IH [OF r] show ?case by simp
qed

text \<open>
  C1. Take a queue built with maxInvocationsPerInterval \<open>R\<close>, invocationIntervalMs \<open>W\<close> and
  maxConcurrency \<open>C\<close> (the constructor accepts them), and any sequence of add, timer,
  task-completion and \<open>then\<close>-callback events that can happen to it. Then every window of
  instants of length \<open>W\<close>, from any \<open>t\<close> to \<open>t + W\<close> with both ends included, holds at
  most \<open>R\<close> task starts.
\<close>

theorem rate_bound:
  assumes "new_ThrottledConcurrentQueue R W C t0 = Inr q0"
    and "run es q0 = Some q"
  shows "starts_in_window t W q \<le> R"
proof -
  from rate_inv_new [OF assms(1)]
  have i: "rate_inv q0" and c: "capacity q0 = R" and w: "invocationIntervalMs q0 = W"
    by simp_all
  from i assms(2) have "rate_inv q" by (rule rate_inv_run)
  moreover from run_fields [OF assms(2)] c w
  have "capacity q = R" "invocationIntervalMs q = W" by simp_all
  ultimately show ?thesis unfolding rate_inv_def by metis
qed

text \<open>
  A queue with \<open>R = 2\<close>, \<open>W = 100\<close> and no concurrency limit receives three tasks at instant
  1000. The first tick starts two of them, at 1000 and at 1001. The third starts at 1300,
  when the wake-up timer fires. The window from 1000 to 1100 holds two starts.
\<close>

theorem rate_bound_witness:
  "new_ThrottledConcurrentQueue 2 100 \<infinity> 1000
     = Inr \<lparr> taskQueue = [], concurrency = 0, invocationIntervalMs = 100,
             maxConcurrency = \<infinity>, capacity = 2, executionTimestamps = [],
             executionTimeout = None, timers = [], next_timer = 1, finished = 0,
             clock = 1000, started = ([] :: (int \<times> nat) list) \<rparr>
   \<and> run [Add (1::nat) 1000, Add 2 1000, Add 3 1000,
           Timeout 1 1000 (\<lambda>k. if k = 1 then 1 else 0), Timeout 2 1005 (\<lambda>k. 0),
           Timeout 3 1010 (\<lambda>k. 0), Complete 1012, Then 1012 (\<lambda>k. 0),
           Timeout 7 1300 (\<lambda>k. 0)]
        \<lparr> taskQueue = [], concurrency = 0, invocationIntervalMs = 100,
          maxConcurrency = \<infinity>, capacity = 2, executionTimestamps = [],
          executionTimeout = None, timers = [], next_timer = 1, finished = 0,
          clock = 1000, started = [] \<rparr>
     = Some \<lparr> taskQueue = [], concurrency = 2, invocationIntervalMs = 100,
              maxConcurrency = \<infinity>, capacity = 2, executionTimestamps = [1300],
              executionTimeout = Some 7, timers = [], next_timer = 8, finished = 0,
              clock = 1300, started = [(1000, 1), (1001, 2), (1300, 3)] \<rparr>
   \<and> starts_in_window 1000 100
        \<lparr> taskQueue = [], concurrency = 2, invocationIntervalMs = 100,
          maxConcurrency = \<infinity>, capacity = 2, executionTimestamps = [1300],
          executionTimeout = Some 7, timers = [], next_timer = 8, finished = 0,
          clock = 1300, started = [(1000, 1::nat), (1001, 2), (1300, 3)] \<rparr> = 2"
proof -
  let ?start = "\<lparr> taskQueue = [], concurrency = 0, invocationIntervalMs = 100,
             maxConcurrency = \<infinity>, capacity = 2, executionTimestamps = [],
             executionTimeout = None, timers = [], next_timer = 1, finished = 0,
             clock = 1000, started = ([] :: (int \<times> nat) list) \<rparr>"
  let ?es = "[Add (1::nat) 1000, Add 2 1000, Add 3 1000,
           Timeout 1 1000 (\<lambda>k. if k = 1 then 1 else 0), Timeout 2 1005 (\<lambda>k. 0),
           Timeout 3 1010 (\<lambda>k. 0), Complete 1012, Then 1012 (\<lambda>k. 0),
           Timeout 7 1300 (\<lambda>k. 0)]"
  let ?final = "\<lparr> taskQueue = [], concurrency = 2, invocationIntervalMs = 100,
              maxConcurrency = \<infinity>, capacity = 2, executionTimestamps = [1300],
              executionTimeout = Some 7, timers = [], next_timer = 8, finished = 0,
              clock = 1300, started = [(1000, 1::nat), (1001, 2), (1300, 3)] \<rparr>"
  have a: "new_ThrottledConcurrentQueue 2 100 \<infinity> 1000 = Inr ?start"
    by code_simp
  have b: "run ?es ?start = Some ?final"
    by code_simp
  have c: "starts_in_window 1000 100 ?final = 2"
    by code_simp
  from rate_bound [OF a b, of 1000] a b c show ?thesis by simp
qed

text \<open>
  The wake-up timer of a tick that ends with tasks in the queue, a buffer whose oldest
  instant is \<open>oldest\<close> and concurrency quota: the timer named by \<open>executionTimeout\<close> is
  removed, and one timer is added, with the delay \<open>now - oldest + invocationIntervalMs\<close>.
\<close>

lemma schedule_wake_delay:
  assumes "taskQueue q \<noteq> []" and "executionTimestamps q = oldest # rest" and "oldest \<noteq> 0"
    and "concurrencyQuotaRemaining q \<noteq> 0"
    and "clock q - oldest + invocationIntervalMs q \<noteq> 0"
  shows "timers (schedule_wake q)
           = filter (\<lambda>(i, s, d). Some i \<noteq> executionTimeout q) (timers q)
               @ [(next_timer q, clock q, clock q - oldest + invocationIntervalMs q)]
         \<and> executionTimeout (schedule_wake q) = Some (next_timer q)"
  using assms
  by (auto simp: schedule_wake_def nextPossibleExecution_def peekFirst_def setTimeout_def
      clearTimeout_def Let_def split: option.splits intro: filter_cong)

text \<open>
  C6 at a concrete run. A queue with \<open>R = 1\<close>, \<open>W = 100\<close> gets two tasks at instant 10 and
  starts the first one at 10, which sets the wake-up timer number 3. A third task is added
  at instant 50 and its tick runs at 50: the queue is not empty, the buffer holds the
  instant 10 and there is concurrency quota. The tick replaces timer 3 by the wake-up
  timer number 5 (the only other pending timer is the tick of the second add) and gives
  it the delay \<open>now - oldest + W = 140\<close>, while \<open>(oldest + W) - now\<close> is 60.
\<close>

theorem wake_delay_at_50:
  "run [Add (1::nat) 10, Add 2 10, Timeout 1 10 (\<lambda>k. 0), Add 3 50, Timeout 4 50 (\<lambda>k. 0)]
        \<lparr> taskQueue = [], concurrency = 0, invocationIntervalMs = 100,
          maxConcurrency = \<infinity>, capacity = 1, executionTimestamps = [],
          executionTimeout = None, timers = [], next_timer = 1, finished = 0,
          clock = 0, started = [] \<rparr>
     = Some \<lparr> taskQueue = [3, 2], concurrency = 1, invocationIntervalMs = 100,
              maxConcurrency = \<infinity>, capacity = 1, executionTimestamps = [10],
              executionTimeout = Some 5, timers = [(2, 10, 0), (5, 50, 140)],
              next_timer = 6, finished = 0, clock = 50, started = [(10, 1)] \<rparr>
   \<and> nextPossibleExecution
        \<lparr> taskQueue = [3, 2::nat], concurrency = 1, invocationIntervalMs = 100,
          maxConcurrency = \<infinity>, capacity = 1, executionTimestamps = [10],
          executionTimeout = Some 5, timers = [(2, 10, 0), (5, 50, 140)],
          next_timer = 6, finished = 0, clock = 50, started = [(10, 1)] \<rparr> = Some 140
   \<and> (10 + 100) - 50 = (60::int)"
  by code_simp

section \<open>The result of aggregateBulkGetter\<close>

lemma less_quotient_iff:
  "(of_nat i :: rat) < x \<longleftrightarrow> i < nat \<lceil>x\<rceil>"
proof -
  have "i < nat \<lceil>x\<rceil> \<longleftrightarrow> int i < \<lceil>x\<rceil>" by linarith
  also have "\<dots> \<longleftrightarrow> of_int (int i) < x" by (rule less_ceiling_iff)
  finally show ?thesis by simp
qed

lemma chunk_bounds_eq:
  "chunk_bounds t q i =
     map (\<lambda>j. (j, j * q, min ((j + 1) * q) t)) [i..<nat \<lceil>(of_nat t :: rat) / of_nat q\<rceil>]"
proof (induction t q i rule: chunk_bounds.induct)
  case (1 t q i)
  let ?n = "nat \<lceil>(of_nat t :: rat) / of_nat q\<rceil>"
  show ?case
  proof (cases "(of_nat i :: rat) < of_nat t / of_nat q")
    case True
    then have "i < ?n" by (simp add: less_quotient_iff)
    then have u: "[i..<?n] = i # [i + 1..<?n]" by (simp add: upt_conv_Cons)
    have "chunk_bounds t q i = (i, i * q, min ((i + 1) * q) t) # chunk_bounds t q (i + 1)"
      using True by (subst chunk_bounds.simps) simp
    also have "\<dots> = (i, i * q, min ((i + 1) * q) t)
        # map (\<lambda>j. (j, j * q, min ((j + 1) * q) t)) [i + 1..<?n]"
      using "1.IH" [OF True] by simp
    finally show ?thesis by (subst u) simp
  next
    case False
    then have "\<not> i < ?n" by (simp add: less_quotient_iff)
    then have "[i..<?n] = []" by simp
    moreover have "chunk_bounds t q i = []"
      using False by (subst chunk_bounds.simps) simp
    ultimately show ?thesis by simp
  qed
qed

text \<open>When every promise receives a non-empty answer, one round resolves them all.\<close>

lemma run_round_first:
  assumes "\<forall>(i, s, e, k) \<in> set ps. getterFn k s e \<noteq> []"
  shows "\<exists>calls l'. run_round getterFn t l ps
           = ([], map (\<lambda>(i, s, e, k). (i, getterFn k s e)) ps, calls, l')"
  using assms
proof (induction ps arbitrary: l)
  case Nil
  then show ?case by simp
next
  case (Cons p ps)
  obtain i s e k where p: "p = (i, s, e, k)" by (cases p)
  with Cons.prems have ne: "getterFn k s e \<noteq> []" by simp
  from Cons.prems have "\<forall>(i, s, e, k) \<in> set ps. getterFn k s e \<noteq> []" by simp
  then have "\<exists>calls l'. run_round getterFn t (l + (e - s)) ps
           = ([], map (\<lambda>(i, s, e, k). (i, getterFn k s e)) ps, calls, l')"
    by (rule Cons.IH)
  then obtain calls l' where "run_round getterFn t (l + (e - s)) ps
           = ([], map (\<lambda>(i, s, e, k). (i, getterFn k s e)) ps, calls, l')"
    by blast
  then show ?case using p ne by (simp add: Let_def)
qed

lemma run_rounds_first:
  assumes "\<forall>(i, s, e, k) \<in> set ps. getterFn k s e \<noteq> []"
  shows "\<exists>calls. run_rounds getterFn t l ps [] []
           = Some (map (\<lambda>(i, s, e, k). (i, getterFn k s e)) ps, calls)"
proof (cases "ps = []")
  case True
  then show ?thesis by (subst run_rounds.simps) simp
next
  case False
  from assms have "\<exists>calls l'. run_round getterFn t l ps
           = ([], map (\<lambda>(i, s, e, k). (i, getterFn k s e)) ps, calls, l')"
    by (rule run_round_first)
  then obtain calls l' where r: "run_round getterFn t l ps
           = ([], map (\<lambda>(i, s, e, k). (i, getterFn k s e)) ps, calls, l')"
    by blast
  have "run_rounds getterFn t l ps [] []
      = run_rounds getterFn t l' [] (map (\<lambda>(i, s, e, k). (i, getterFn k s e)) ps) calls"
    using False r by (subst run_rounds.simps) simp
  also have "\<dots> = Some (map (\<lambda>(i, s, e, k). (i, getterFn k s e)) ps, calls)"
    by (subst run_rounds.simps) simp
  finally show ?thesis by blast
qed

lemma map_of_indexed:
  assumes "j \<in> set xs"
  shows "map_of (map (\<lambda>k. (k, f k)) xs) j = Some (f j)"
  using assms by (induction xs) auto

text \<open>
  C9. Let \<open>querySize\<close> be positive and let the getter answer every request it receives with
  a non-empty array; the requests are the first ones for the chunks
  \<open>[i * querySize, min ((i + 1) * querySize) total)\<close> with \<open>i\<close> below \<open>ceil (total / querySize)\<close>.
  Then aggregateBulkGetter returns the concatenation of these answers in the order of the
  chunk indices, and when \<open>onProgress\<close> is supplied it is called at least once and its last
  call passes exactly 1.
\<close>

theorem aggregateBulkGetter_concat:
  assumes "0 < querySize"
    and "\<forall>i < nat \<lceil>(of_nat total' :: rat) / of_nat querySize\<rceil>.
           getterFn 0 (i * querySize) (min ((i + 1) * querySize) total') \<noteq> []"
  shows "\<exists>calls. aggregateBulkGetter total' querySize getterFn onProgress
           = Some (concat (map (\<lambda>i. getterFn 0 (i * querySize)
                                     (min ((i + 1) * querySize) total'))
                             [0..<nat \<lceil>(of_nat total' :: rat) / of_nat querySize\<rceil>]),
                   calls)
         \<and> (onProgress \<longrightarrow> calls \<noteq> [] \<and> last calls = 1)"
proof -
  let ?n = "nat \<lceil>(of_nat total' :: rat) / of_nat querySize\<rceil>"
  let ?f = "\<lambda>i. getterFn 0 (i * querySize) (min ((i + 1) * querySize) total')"
  let ?cs = "chunk_bounds total' querySize 0"
  let ?ps = "map (\<lambda>(i, start, end'). (i, start, end', 0::nat)) ?cs"
  have cs: "?cs = map (\<lambda>j. (j, j * querySize, min ((j + 1) * querySize) total')) [0..<?n]"
    by (rule chunk_bounds_eq)
  have ps: "?ps = map (\<lambda>j. (j, j * querySize, min ((j + 1) * querySize) total', 0)) [0..<?n]"
    unfolding cs by (simp add: comp_def)
  have "\<forall>(i, s, e, k) \<in> set ?ps. getterFn k s e \<noteq> []"
    unfolding ps using assms(2) by auto
  then have "\<exists>calls. run_rounds getterFn total' 0 ?ps [] []
      = Some (map (\<lambda>(i, s, e, k). (i, getterFn k s e)) ?ps, calls)"
    by (rule run_rounds_first)
  then obtain calls where r: "run_rounds getterFn total' 0 ?ps [] []
      = Some (map (\<lambda>(i, s, e, k). (i, getterFn k s e)) ?ps, calls)"
    by blast
  have res: "map (\<lambda>(i, s, e, k). (i, getterFn k s e)) ?ps = map (\<lambda>j. (j, ?f j)) [0..<?n]"
    unfolding ps by (simp add: comp_def)
  have v: "(case map_of (map (\<lambda>j. (j, ?f j)) [0..<?n]) j of None \<Rightarrow> [] | Some res \<Rightarrow> res) = ?f j"
    if "j \<in> set [0..<?n]" for j
    using that by (simp only: map_of_indexed option.case)
  have "map (\<lambda>(i, start, end').
              case map_of (map (\<lambda>j. (j, ?f j)) [0..<?n]) i of None \<Rightarrow> [] | Some res \<Rightarrow> res) ?cs
      = map (\<lambda>j. case map_of (map (\<lambda>j. (j, ?f j)) [0..<?n]) j of None \<Rightarrow> [] | Some res \<Rightarrow> res)
          [0..<?n]"
    unfolding cs by (simp only: map_map comp_def prod.case)
  also have "\<dots> = map ?f [0..<?n]"
    using v by (rule map_cong [OF refl])
  finally have u: "map (\<lambda>(i, start, end').
              case map_of (map (\<lambda>j. (j, ?f j)) [0..<?n]) i of None \<Rightarrow> [] | Some res \<Rightarrow> res) ?cs
      = map ?f [0..<?n]" .
  have q: "\<not> (querySize = 0 \<and> 0 < total')" using assms(1) by simp
  have "aggregateBulkGetter total' querySize getterFn onProgress
      = Some (concat (map ?f [0..<?n]), if onProgress then calls @ [1] else [])"
    unfolding aggregateBulkGetter_def Let_def using q r unfolding res
    by (simp only: if_False option.case prod.case u)
  then show ?thesis by simp
qed

text \<open>Ten items in chunks of four, with a getter that returns the indices of the range.\<close>

theorem aggregateBulkGetter_concat_witness:
  "(0::nat) < 4
   \<and> (\<exists>calls. aggregateBulkGetter 10 4 (\<lambda>k s e. [s..<e]) True
          = Some ([0, 1, 2, 3, 4, 5, 6, 7, 8, 9 :: nat], calls)
        \<and> calls \<noteq> [] \<and> last calls = 1)"
proof -
  have n: "nat \<lceil>(of_nat 10 :: rat) / of_nat 4\<rceil> = 3"
    by code_simp
  have h1: "(0::nat) < 4" by simp
  have h2: "\<forall>i < nat \<lceil>(of_nat 10 :: rat) / of_nat 4\<rceil>.
      (\<lambda>k s e. [s..<e]) 0 (i * 4) (min ((i + 1) * 4) 10) \<noteq> ([] :: nat list)"
    unfolding n by auto
  have c: "concat (map (\<lambda>i. [i * 4..<min ((i + 1) * 4) 10])
              [0..<nat \<lceil>(of_nat 10 :: rat) / of_nat 4\<rceil>])
      = [0, 1, 2, 3, 4, 5, 6, 7, 8, 9 :: nat]"
    unfolding n by code_simp
  from aggregateBulkGetter_concat [of 4 10 "\<lambda>k s e. [s..<e]" True, OF h1 h2]
  show ?thesis unfolding c by simp
qed

section \<open>setRpcUrl and makeCall\<close>

text \<open>
  Whenever setRpcUrl succeeds, the handle registered for a loader is the one this loader
  built from the provider the connection had before the call.
\<close>

lemma map_of_map_set:
  "map_of (map_set k v xs) k' = (if k' = k then Some v else map_of xs k')"
  by (induction xs) auto

lemma reload_loop_keeps:
  assumes "reload_loop ls c = (None, c')"
  shows "provider c' = provider c \<and> signer c' = signer c \<and> loaders c' = loaders c
         \<and> (a \<notin> fst ` set ls \<longrightarrow> map_of (contracts c') a = map_of (contracts c) a)"
  using assms
proof (induction ls arbitrary: c)
  case Nil
  then show ?case by simp
next
  case (Cons x ls)
  obtain address loader where x: "x = (address, loader)" by (cases x)
  show ?case
  proof (cases "loader address (provider c) (signer c)")
    case (Inl e)
    with Cons.prems x show ?thesis by simp
  next
    case (Inr h)
    let ?c1 = "c\<lparr>contracts := map_set address h (contracts c)\<rparr>"
    from Cons.prems x Inr have "reload_loop ls ?c1 = (None, c')" by simp
    from Cons.IH [OF this] x show ?thesis
      by (auto simp: map_of_map_set)
  qed
qed

lemma reload_loop_old_provider:
  assumes "reload_loop ls c = (None, c')" and "distinct (map fst ls)" and "(a, l) \<in> set ls"
  shows "\<exists>h. l a (provider c) (signer c) = Inr h \<and> map_of (contracts c') a = Some h"
  using assms
proof (induction ls arbitrary: c)
  case Nil
  then show ?case by simp
next
  case (Cons x ls)
  obtain address loader where x: "x = (address, loader)" by (cases x)
  show ?case
  proof (cases "loader address (provider c) (signer c)")
    case (Inl e)
    with Cons.prems x show ?thesis by simp
  next
    case (Inr h)
    let ?c1 = "c\<lparr>contracts := map_set address h (contracts c)\<rparr>"
    from Cons.prems(1) x Inr have r: "reload_loop ls ?c1 = (None, c')" by simp
    from Cons.prems(2) x have d: "distinct (map fst ls)" and n: "address \<notin> fst ` set ls"
      by auto
    show ?thesis
    proof (cases "(a, l) = (address, loader)")
      case True
      from reload_loop_keeps [OF r, of address] n
      have "map_of (contracts c') address = Some h" by (simp add: map_of_map_set)
      with True Inr show ?thesis by auto
    next
      case False
      with Cons.prems(3) x have "(a, l) \<in> set ls" by auto
      from Cons.IH [OF r d this] show ?thesis by simp
    qed
  qed
qed

lemma setRpcUrl_old_provider:
  assumes "setRpcUrl rpcUrl c = (None, c')" and "distinct (map fst (loaders c))"
    and "(a, l) \<in> set (loaders c)"
  shows "provider c' = makeProvider rpcUrl
         \<and> (\<exists>h. l a (provider c) (signer c) = Inr h \<and> getContract a c' = Inr h)"
proof -
  from assms(1) obtain c1 where r: "reload_loop (loaders c) c = (None, c1)"
    and c': "c' = c1\<lparr>rpcChanged := rpcChanged c1 @ [connection_url (makeProvider rpcUrl)],
                     provider := makeProvider rpcUrl\<rparr>"
    by (auto simp: setRpcUrl_def reloadContracts_def Let_def split: prod.splits option.splits)
  from reload_loop_old_provider [OF r assms(2,3)]
  obtain h where "l a (provider c) (signer c) = Inr h" "map_of (contracts c1) a = Some h"
    by blast
  with c' show ?thesis by (auto simp: getContract_def)
qed

text \<open>
  C5 at a concrete connection. One contract is registered at address 0xabc while the
  provider is the one of https://old.example. After \<open>setRpcUrl "https://new.example"\<close> the
  provider is the new one, but the registered handle is the one the loader built from the
  old provider, not the one it builds from the new provider.
\<close>

theorem setRpcUrl_reloads_old_provider:
  "fst (setRpcUrl ''https://new.example'' sample_connection) = None
   \<and> provider (snd (setRpcUrl ''https://new.example'' sample_connection))
       = StaticJsonRpcProvider ''https://new.example'' 8000
   \<and> getContract ''0xabc'' (snd (setRpcUrl ''https://new.example'' sample_connection))
       = Inr (''0xabc'', StaticJsonRpcProvider ''https://old.example'' 8000)
   \<and> sample_loader ''0xabc''
         (provider (snd (setRpcUrl ''https://new.example'' sample_connection)))
         (signer (snd (setRpcUrl ''https://new.example'' sample_connection)))
       = Inr (''0xabc'', StaticJsonRpcProvider ''https://new.example'' 8000)"
  by (simp add: setRpcUrl_def reloadContracts_def sample_connection_def loadContract_def
      sample_loader_def makeProvider_def getContract_def Let_def)

text \<open>makeCall leaves the queue of the caller as it is, whatever the view function does.\<close>

lemma call_attempt_queue:
  "queue (snd (call_attempt f k c)) = queue c"
  by (simp add: call_attempt_def record_callsInQueue_def bump_totalCalls_def Let_def
      split: sum.splits)

lemma p_retry_queue:
  "queue (snd (p_retry (call_attempt f) r k c)) = queue c"
proof (induction r arbitrary: k c)
  case 0
  then show ?case by (simp add: call_attempt_queue)
next
  case (Suc r)
  show ?case
  proof (cases "call_attempt f k c")
    case (Pair res c')
    have q: "queue c' = queue c"
      using call_attempt_queue [of f k c] Pair by simp
    show ?thesis
    proof (cases res)
      case (Inl e)
      with Pair Suc.IH [of "Suc k" c'] q show ?thesis by simp
    next
      case (Inr v)
      with Pair q show ?thesis by simp
    qed
  qed
qed

lemma makeCall_queue_unchanged:
  "queue (snd (makeCall f c)) = queue c"
proof -
  obtain res c' where p: "p_retry (call_attempt f) (maxRetries c) 1 c = (res, c')"
    by (cases "p_retry (call_attempt f) (maxRetries c) 1 c")
  then have "queue c' = queue c"
    using p_retry_queue [of f "maxRetries c" 1 c] by simp
  with p show ?thesis by (simp add: makeCall_def bump_totalCalls_def)
qed

text \<open>
  C3 at a concrete call. A caller with the default queue and three retries calls a view
  function that fails once. makeCall returns the value of the second attempt; the view
  function was invoked twice, directly; the queue has received no task: it is empty, no
  tick is pending and nothing was ever started by it.
\<close>

theorem makeCall_invokes_directly:
  "fst (makeCall sample_view (new_ContractCaller 3 None None 0 :: nat contract_caller)) = Inr 7
   \<and> invocations (snd (makeCall sample_view (new_ContractCaller 3 None None 0 :: nat contract_caller)))
       = [1, 2]
   \<and> queue (snd (makeCall sample_view (new_ContractCaller 3 None None 0 :: nat contract_caller)))
       = queue (new_ContractCaller 3 None None 0)
   \<and> taskQueue (queue (snd (makeCall sample_view (new_ContractCaller 3 None None 0 :: nat contract_caller))))
       = []
   \<and> timers (queue (snd (makeCall sample_view (new_ContractCaller 3 None None 0 :: nat contract_caller))))
       = []
   \<and> started (queue (snd (makeCall sample_view (new_ContractCaller 3 None None 0 :: nat contract_caller))))
       = []"
  by code_simp

section \<open>The transaction executor: callbacks, nonce and overrides\<close>

lemma execute_cases:
  "fired (execute w ex) =
     (case run_outcome w ex of
        SubmitFailed \<Rightarrow> [OnSubmissionError]
      | ReceiptFailed \<Rightarrow> [OnTransactionResponse, OnReceiptError]
      | Confirmed \<Rightarrow> [OnTransactionResponse, OnTransactionReceipt]
      | Reverted \<Rightarrow> [OnTransactionResponse, OnTransactionReceipt])"
  by (cases "maybeUpdateNonce (now_nonce w) (chain_nonce w) ex")
     (auto simp: execute_def run_outcome_def catch_callback_def receipt_callbacks_def Let_def
           split: sum.splits option.splits)

text \<open>
  C4. In one run of \<open>execute\<close> for a queued transaction, each of the four callbacks is
  invoked at most once. A run whose submission fails invokes onSubmissionError and nothing
  else; a run whose receipt wait fails invokes onTransactionResponse and then
  onReceiptError; so a failed run invokes exactly one of the two error callbacks. A run
  that obtains a receipt, reverted or not, invokes onTransactionResponse and
  onTransactionReceipt and no error callback. When the \<open>submitted\<close> promise is rejected,
  the \<open>confirmed\<close> promise stays pending. The queue starts each task once, so a queued
  transaction has one run.
\<close>

theorem callbacks_at_most_once:
  "(\<forall>cb. count_list (fired (execute w ex)) cb \<le> 1)
   \<and> (run_outcome w ex = SubmitFailed \<longrightarrow> fired (execute w ex) = [OnSubmissionError])
   \<and> (run_outcome w ex = ReceiptFailed \<longrightarrow>
        fired (execute w ex) = [OnTransactionResponse, OnReceiptError])
   \<and> (run_outcome w ex = SubmitFailed \<or> run_outcome w ex = ReceiptFailed \<longrightarrow>
        count_list (fired (execute w ex)) OnSubmissionError
          + count_list (fired (execute w ex)) OnReceiptError = 1)
   \<and> (run_outcome w ex = Confirmed \<or> run_outcome w ex = Reverted \<longrightarrow>
        fired (execute w ex) = [OnTransactionResponse, OnTransactionReceipt])
   \<and> (submitted (promises_after (fired (execute w ex))) = Rejected \<longrightarrow>
        confirmed (promises_after (fired (execute w ex))) = Pending)"
  by (cases "run_outcome w ex")
     (auto simp: execute_cases promises_after_def settle_def)

text \<open>A run whose submission times out, for an executor that knows its nonce.\<close>

theorem callbacks_at_most_once_witness:
  "run_outcome
      \<lparr> now_nonce = 1000, chain_nonce = Inr (Some 50), before_transaction = None,
        submission = Inl TimeoutError, now_submitted = 31000, receipt = Inr 1 \<rparr>
      ((new_TxExecutor 0)\<lparr> nonce := Some 42 \<rparr>) = SubmitFailed
   \<and> fired (execute
      \<lparr> now_nonce = 1000, chain_nonce = Inr (Some 50), before_transaction = None,
        submission = Inl TimeoutError, now_submitted = 31000, receipt = Inr 1 \<rparr>
      ((new_TxExecutor 0)\<lparr> nonce := Some 42 \<rparr>)) = [OnSubmissionError]
   \<and> confirmed (promises_after (fired (execute
      \<lparr> now_nonce = 1000, chain_nonce = Inr (Some 50), before_transaction = None,
        submission = Inl TimeoutError, now_submitted = 31000, receipt = Inr 1 \<rparr>
      ((new_TxExecutor 0)\<lparr> nonce := Some 42 \<rparr>)))) = Pending"
  using callbacks_at_most_once [of
      "\<lparr> now_nonce = 1000, chain_nonce = Inr (Some 50), before_transaction = None,
        submission = Inl TimeoutError, now_submitted = 31000, receipt = Inr 1 \<rparr>"
      "(new_TxExecutor 0)\<lparr> nonce := Some 42 \<rparr>"]
  by (simp add: run_outcome_def maybeUpdateNonce_def new_TxExecutor_def NONCE_STALE_AFTER_MS_def
      promises_after_def settle_def)

lemma maybeUpdateNonce_fetched:
  "fst (maybeUpdateNonce now f ex)
     \<longleftrightarrow> nonce ex = None \<or> now - lastTransactionTimestamp ex > NONCE_STALE_AFTER_MS"
  by (simp add: maybeUpdateNonce_def)

lemma maybeUpdateNonce_not_fetched:
  assumes "\<not> fst (maybeUpdateNonce now f ex)"
  shows "maybeUpdateNonce now f ex = (False, Inr ex)"
  using assms by (simp add: maybeUpdateNonce_def split: if_splits)

lemma maybeUpdateNonce_timestamp:
  assumes "maybeUpdateNonce now f ex = (b, Inr ex1)"
  shows "lastTransactionTimestamp ex1 = lastTransactionTimestamp ex
         \<and> tx_queue ex1 = tx_queue ex"
  using assms by (auto simp: maybeUpdateNonce_def split: if_splits sum.splits option.splits)

lemma execute_success:
  assumes "submitted_nonce (execute w ex) = Some (Some n)" and "submission w = Inr hash"
  shows "nonce (executor_after (execute w ex)) = Some (n + 1)
        \<and> lastTransactionTimestamp (executor_after (execute w ex)) = now_submitted w"
  using assms
  by (cases "maybeUpdateNonce (now_nonce w) (chain_nonce w) ex")
     (auto simp: execute_def Let_def split: sum.splits option.splits)

lemma execute_failure:
  assumes "submitted_nonce (execute w ex) = Some m" and "submission w = Inl e"
  shows "nonce (executor_after (execute w ex)) = m
        \<and> lastTransactionTimestamp (executor_after (execute w ex)) = lastTransactionTimestamp ex"
  using assms
  by (cases "maybeUpdateNonce (now_nonce w) (chain_nonce w) ex")
     (auto simp: execute_def Let_def dest: maybeUpdateNonce_timestamp
           split: sum.splits option.splits)

lemma execute_fetched:
  "fetched_nonce (execute w ex)
     \<longleftrightarrow> nonce ex = None \<or> now_nonce w - lastTransactionTimestamp ex > NONCE_STALE_AFTER_MS"
proof -
  have "fetched_nonce (execute w ex) = fst (maybeUpdateNonce (now_nonce w) (chain_nonce w) ex)"
    by (cases "maybeUpdateNonce (now_nonce w) (chain_nonce w) ex")
       (auto simp: execute_def Let_def split: sum.splits option.splits)
  then show ?thesis by (simp add: maybeUpdateNonce_fetched)
qed

lemma execute_not_fetched:
  assumes "\<not> fetched_nonce (execute w ex)" and "submitted_nonce (execute w ex) \<noteq> None"
  shows "submitted_nonce (execute w ex) = Some (nonce ex)"
proof -
  from assms(1) have "\<not> (nonce ex = None \<or> now_nonce w - lastTransactionTimestamp ex > NONCE_STALE_AFTER_MS)"
    by (simp add: execute_fetched)
  then have "maybeUpdateNonce (now_nonce w) (chain_nonce w) ex = (False, Inr ex)"
    by (simp add: maybeUpdateNonce_def)
  with assms(2) show ?thesis
    by (auto simp: execute_def Let_def split: sum.splits option.splits)
qed

lemma execute_refetched:
  assumes "fetched_nonce (execute w ex)" and "chain_nonce w = Inr (Some n2)"
    and "submitted_nonce (execute w ex) \<noteq> None"
  shows "submitted_nonce (execute w ex) = Some (Some n2)"
proof -
  from assms(1) have "nonce ex = None \<or> now_nonce w - lastTransactionTimestamp ex > NONCE_STALE_AFTER_MS"
    by (simp add: execute_fetched)
  then have "maybeUpdateNonce (now_nonce w) (chain_nonce w) ex = (True, Inr (ex\<lparr>nonce := Some n2\<rparr>))"
    using assms(2) by (simp add: maybeUpdateNonce_def)
  with assms(3) show ?thesis
    by (auto simp: execute_def Let_def split: sum.splits option.splits)
qed

text \<open>
  C2 as the code has it. A submission that succeeds while a nonce \<open>n\<close> is in use leaves the
  nonce \<open>n + 1\<close> (and records the instant of the submission). A submission that fails leaves
  the nonce it carried (and the recorded instant) as they were. The nonce is fetched from
  the chain exactly when it is unknown or more than NONCE_STALE_AFTER_MS have passed
  since the recorded instant. After a failed submission the next transaction carries the
  same nonce when its run fetches no nonce; when its run fetches one and the chain
  answers with a number, it carries that number.
\<close>

theorem nonce_discipline:
  "(\<forall>n hash. submitted_nonce (execute w ex) = Some (Some n) \<and> submission w = Inr hash \<longrightarrow>
        nonce (executor_after (execute w ex)) = Some (n + 1)
        \<and> lastTransactionTimestamp (executor_after (execute w ex)) = now_submitted w)
   \<and> (\<forall>m e. submitted_nonce (execute w ex) = Some m \<and> submission w = Inl e \<longrightarrow>
        nonce (executor_after (execute w ex)) = m
        \<and> lastTransactionTimestamp (executor_after (execute w ex)) = lastTransactionTimestamp ex)
   \<and> (fetched_nonce (execute w ex) \<longleftrightarrow>
        nonce ex = None \<or> now_nonce w - lastTransactionTimestamp ex > NONCE_STALE_AFTER_MS)
   \<and> (\<forall>m e w2. submitted_nonce (execute w ex) = Some m \<and> submission w = Inl e
          \<and> \<not> fetched_nonce (execute w2 (executor_after (execute w ex)))
          \<and> submitted_nonce (execute w2 (executor_after (execute w ex))) \<noteq> None \<longrightarrow>
        submitted_nonce (execute w2 (executor_after (execute w ex))) = Some m)
   \<and> (\<forall>m e w2 n2. submitted_nonce (execute w ex) = Some m \<and> submission w = Inl e
          \<and> fetched_nonce (execute w2 (executor_after (execute w ex)))
          \<and> chain_nonce w2 = Inr (Some n2)
          \<and> submitted_nonce (execute w2 (executor_after (execute w ex))) \<noteq> None \<longrightarrow>
        submitted_nonce (execute w2 (executor_after (execute w ex))) = Some (Some n2))"
proof (intro conjI allI impI)
  fix n hash
  assume "submitted_nonce (execute w ex) = Some (Some n) \<and> submission w = Inr hash"
  then show "nonce (executor_after (execute w ex)) = Some (n + 1)"
    and "lastTransactionTimestamp (executor_after (execute w ex)) = now_submitted w"
    using execute_success by blast+
next
  fix m e
  assume "submitted_nonce (execute w ex) = Some m \<and> submission w = Inl e"
  then show "nonce (executor_after (execute w ex)) = m"
    and "lastTransactionTimestamp (executor_after (execute w ex)) = lastTransactionTimestamp ex"
    using execute_failure by blast+
next
  show "fetched_nonce (execute w ex) \<longleftrightarrow>
        nonce ex = None \<or> now_nonce w - lastTransactionTimestamp ex > NONCE_STALE_AFTER_MS"
    by (rule execute_fetched)
next
  fix m e w2
  assume a: "submitted_nonce (execute w ex) = Some m \<and> submission w = Inl e
          \<and> \<not> fetched_nonce (execute w2 (executor_after (execute w ex)))
          \<and> submitted_nonce (execute w2 (executor_after (execute w ex))) \<noteq> None"
  then have "nonce (executor_after (execute w ex)) = m"
    using execute_failure by blast
  moreover have "submitted_nonce (execute w2 (executor_after (execute w ex)))
      = Some (nonce (executor_after (execute w ex)))"
    using a by (intro execute_not_fetched) simp_all
  ultimately show "submitted_nonce (execute w2 (executor_after (execute w ex))) = Some m"
    by simp
next
  fix m e w2 n2
  assume "submitted_nonce (execute w ex) = Some m \<and> submission w = Inl e
          \<and> fetched_nonce (execute w2 (executor_after (execute w ex)))
          \<and> chain_nonce w2 = Inr (Some n2)
          \<and> submitted_nonce (execute w2 (executor_after (execute w ex))) \<noteq> None"
  then show "submitted_nonce (execute w2 (executor_after (execute w ex))) = Some (Some n2)"
    by (intro execute_refetched) simp_all
qed

text \<open>The same run: the nonce 42 is not fetched again, is carried by the submission and stays.\<close>

theorem nonce_discipline_witness:
  "submitted_nonce (execute
      \<lparr> now_nonce = 1000, chain_nonce = Inr (Some 50), before_transaction = None,
        submission = Inl TimeoutError, now_submitted = 31000, receipt = Inr 1 \<rparr>
      ((new_TxExecutor 0)\<lparr> nonce := Some 42 \<rparr>)) = Some (Some 42)
   \<and> nonce (executor_after (execute
      \<lparr> now_nonce = 1000, chain_nonce = Inr (Some 50), before_transaction = None,
        submission = Inl TimeoutError, now_submitted = 31000, receipt = Inr 1 \<rparr>
      ((new_TxExecutor 0)\<lparr> nonce := Some 42 \<rparr>))) = Some 42
   \<and> \<not> fetched_nonce (execute
      \<lparr> now_nonce = 1000, chain_nonce = Inr (Some 50), before_transaction = None,
        submission = Inl TimeoutError, now_submitted = 31000, receipt = Inr 1 \<rparr>
      ((new_TxExecutor 0)\<lparr> nonce := Some 42 \<rparr>))"
  using nonce_discipline [of
      "\<lparr> now_nonce = 1000, chain_nonce = Inr (Some 50), before_transaction = None,
        submission = Inl TimeoutError, now_submitted = 31000, receipt = Inr 1 \<rparr>"
      "(new_TxExecutor 0)\<lparr> nonce := Some 42 \<rparr>"]
  by (simp add: execute_def maybeUpdateNonce_def new_TxExecutor_def NONCE_STALE_AFTER_MS_def
      catch_callback_def)

text \<open>
  C2 as stated fails in the following run: the next transaction does not carry the nonce
  of the failed one. The executor knows the nonce 42 and its recorded instant is 0. A
  transaction run at instant 1000 carries the nonce 42 and its submission times out; the
  nonce stays 42. The next transaction runs at instant 31000: more than 5000 ms have
  passed since instant 0, the nonce is fetched, the chain answers 50, and the submission
  carries 50, not 42.
\<close>

theorem next_nonce_after_timeout:
  "submission
      \<lparr> now_nonce = 1000, chain_nonce = Inr (Some 50), before_transaction = None,
        submission = Inl TimeoutError, now_submitted = 31000, receipt = Inr 1 \<rparr>
     = Inl TimeoutError
   \<and> submitted_nonce (execute
      \<lparr> now_nonce = 1000, chain_nonce = Inr (Some 50), before_transaction = None,
        submission = Inl TimeoutError, now_submitted = 31000, receipt = Inr 1 \<rparr>
      ((new_TxExecutor 0)\<lparr> nonce := Some 42 \<rparr>)) = Some (Some 42)
   \<and> nonce (executor_after (execute
      \<lparr> now_nonce = 1000, chain_nonce = Inr (Some 50), before_transaction = None,
        submission = Inl TimeoutError, now_submitted = 31000, receipt = Inr 1 \<rparr>
      ((new_TxExecutor 0)\<lparr> nonce := Some 42 \<rparr>))) = Some 42
   \<and> submitted_nonce (execute
      \<lparr> now_nonce = 31000, chain_nonce = Inr (Some 50), before_transaction = None,
        submission = Inr ''0x01'', now_submitted = 31200, receipt = Inr 1 \<rparr>
      (executor_after (execute
         \<lparr> now_nonce = 1000, chain_nonce = Inr (Some 50), before_transaction = None,
           submission = Inl TimeoutError, now_submitted = 31000, receipt = Inr 1 \<rparr>
         ((new_TxExecutor 0)\<lparr> nonce := Some 42 \<rparr>)))) = Some (Some 50)"
  by (simp add: execute_def maybeUpdateNonce_def new_TxExecutor_def NONCE_STALE_AFTER_MS_def
      catch_callback_def Let_def)

text \<open>
  C10 as the code has it. Let the \<open>overrides\<close> argument refer to an object of the caller.
  When the object's gas price is undefined and the automatically selected price converts
  to \<open>wei\<close>, the call returns, the object itself holds \<open>wei\<close> as gas price afterwards (its
  other field and all other objects are as before), and the task put at the front of the
  queue refers to this same object. When the gas price is undefined and the conversion
  throws, the call throws that error, no object is modified and the queue is as before.
  When the gas price is set, the call returns and no object is modified.
\<close>

theorem queueTransaction_overrides:
  assumes "r < length (heap st)"
  shows "(\<forall>wei. gasPrice (heap st ! r) = None
            \<and> gweiToWei (getAutoGasPriceGwei (conn_getAutoGasPrices conn) setting) = Inr wei \<longrightarrow>
          fst (queueTransaction conn setting now a c m xs (Some r) st) = None
          \<and> heap (snd (queueTransaction conn setting now a c m xs (Some r) st))
              = (heap st)[r := (heap st ! r)\<lparr> gasPrice := Some wei \<rparr>]
          \<and> taskQueue (tx_queue (executor
                (snd (queueTransaction conn setting now a c m xs (Some r) st))))
              = \<lparr> actionId = a, contract = c, methodName = m, args = xs, overrides_ref = r \<rparr>
                  # taskQueue (tx_queue (executor st)))
       \<and> (\<forall>e. gasPrice (heap st ! r) = None
            \<and> gweiToWei (getAutoGasPriceGwei (conn_getAutoGasPrices conn) setting) = Inl e \<longrightarrow>
          fst (queueTransaction conn setting now a c m xs (Some r) st) = Some e
          \<and> heap (snd (queueTransaction conn setting now a c m xs (Some r) st)) = heap st
          \<and> executor (snd (queueTransaction conn setting now a c m xs (Some r) st))
              = executor st)
       \<and> (gasPrice (heap st ! r) \<noteq> None \<longrightarrow>
          fst (queueTransaction conn setting now a c m xs (Some r) st) = None
          \<and> heap (snd (queueTransaction conn setting now a c m xs (Some r) st)) = heap st
          \<and> taskQueue (tx_queue (executor
                (snd (queueTransaction conn setting now a c m xs (Some r) st))))
              = \<lparr> actionId = a, contract = c, methodName = m, args = xs, overrides_ref = r \<rparr>
                  # taskQueue (tx_queue (executor st)))"
  using assms
  by (auto simp: queueTransaction_def add_def setTimeout_def Let_def)

text \<open>
  The caller's object has no gas price, the setting is \<open>Fast\<close> and the fast price is 10 gwei:
  the object holds 10000000000 wei afterwards and the queued task refers to it.
\<close>

theorem queueTransaction_overrides_witness:
  "(0::nat) < length [\<lparr> gasPrice = None, gasLimit = Some 500000 \<rparr>]
   \<and> fst (queueTransaction sample_connection ''Fast'' 5 ''action-1'' ''0xabc'' ''move'' []
            (Some 0)
            \<lparr> executor = new_TxExecutor 0,
              heap = [\<lparr> gasPrice = None, gasLimit = Some 500000 \<rparr>] \<rparr>) = None
   \<and> heap (snd (queueTransaction sample_connection ''Fast'' 5 ''action-1'' ''0xabc'' ''move'' []
            (Some 0)
            \<lparr> executor = new_TxExecutor 0,
              heap = [\<lparr> gasPrice = None, gasLimit = Some 500000 \<rparr>] \<rparr>))
       = [\<lparr> gasPrice = Some 10000000000, gasLimit = Some 500000 \<rparr>]
   \<and> map overrides_ref (taskQueue (tx_queue (executor
         (snd (queueTransaction sample_connection ''Fast'' 5 ''action-1'' ''0xabc'' ''move'' []
            (Some 0)
            \<lparr> executor = new_TxExecutor 0,
              heap = [\<lparr> gasPrice = None, gasLimit = Some 500000 \<rparr>] \<rparr>))))) = [0]"
proof -
  have g: "gweiToWei (getAutoGasPriceGwei (conn_getAutoGasPrices sample_connection) ''Fast'')
      = Inr 10000000000"
    by code_simp
  have e: "taskQueue (tx_queue (new_TxExecutor 0)) = []"
    by code_simp
  from queueTransaction_overrides [of 0
      "\<lparr> executor = new_TxExecutor 0, heap = [\<lparr> gasPrice = None, gasLimit = Some 500000 \<rparr>] \<rparr>"
      sample_connection "''Fast''" 5 "''action-1''" "''0xabc''" "''move''" "[]"]
  show ?thesis using g e by auto
qed

text \<open>
  C10 as stated fails when the conversion throws. The caller's object has no gas price
  and the setting is \<open>"Infinity"\<close>, which getAutoGasPriceGwei returns as the price: the
  conversion throws, so queueTransaction throws, the object still has no gas price and
  nothing is in the queue.
\<close>

theorem queueTransaction_throws_at_infinity:
  "gasPrice ([\<lparr> gasPrice = None, gasLimit = Some 500000 \<rparr>] ! 0) = None
   \<and> getAutoGasPriceGwei (conn_getAutoGasPrices sample_connection) ''Infinity'' = PosInf
   \<and> fst (queueTransaction sample_connection ''Infinity'' 5 ''action-1'' ''0xabc'' ''move'' []
            (Some 0)
            \<lparr> executor = new_TxExecutor 0,
              heap = [\<lparr> gasPrice = None, gasLimit = Some 500000 \<rparr>] \<rparr>)
       = Some (Error ''invalid decimal value'')
   \<and> heap (snd (queueTransaction sample_connection ''Infinity'' 5 ''action-1'' ''0xabc'' ''move'' []
            (Some 0)
            \<lparr> executor = new_TxExecutor 0,
              heap = [\<lparr> gasPrice = None, gasLimit = Some 500000 \<rparr>] \<rparr>))
       = [\<lparr> gasPrice = None, gasLimit = Some 500000 \<rparr>]
   \<and> taskQueue (tx_queue (executor
         (snd (queueTransaction sample_connection ''Infinity'' 5 ''action-1'' ''0xabc'' ''move'' []
            (Some 0)
            \<lparr> executor = new_TxExecutor 0,
              heap = [\<lparr> gasPrice = None, gasLimit = Some 500000 \<rparr>] \<rparr>)))) = []"
  by code_simp

end
